theory Spec2Isabelle
  imports Complex_Main "HOL-Library.Log_Nat" "HOL-Library.Sublist"
begin

section \<open>Python values used by the document enhancement package\<close>

text \<open>
  The exceptions the modelled functions can raise. A function that can raise returns
  \<open>py_error + 'a\<close>, with \<open>Inl\<close> for the exception.
\<close>

datatype py_error = AttributeError | ZeroDivisionError | ValueError | RuntimeError | OverflowError

definition bind_r :: "py_error + 'a \<Rightarrow> ('a \<Rightarrow> py_error + 'b) \<Rightarrow> py_error + 'b" where
  "bind_r m f = (case m of Inl e \<Rightarrow> Inl e | Inr v \<Rightarrow> f v)"

subsection \<open>Floats\<close>

text \<open>
  A Python float is a binary64 value (\<open>float64\<close>): a finite number, given as the rational
  it denotes, an infinity or NaN. \<open>rnd\<close> rounds a rational to 53 bits of significand, ties
  to even, with gradual underflow below \<open>2 powi (-1022)\<close> and no upper limit on the
  exponent; \<open>round64\<close> then replaces what lies beyond the largest finite float by an
  infinity. Every arithmetic operation computes the exact result and rounds it with
  \<open>round64\<close>. The sign of zero is not represented: no operation of the package tells
  \<open>0.0\<close> from \<open>-0.0\<close>, since a division by either raises.
\<close>

type_synonym pyfloat = rat

definition ilog2 :: "rat \<Rightarrow> int" where
  \<comment> \<open>for \<open>0 < q\<close>, the integer \<open>k\<close> with \<open>2 powi k \<le> q < 2 powi (k + 1)\<close>\<close>
  "ilog2 q = (if 1 \<le> q then bitlen \<lfloor>q\<rfloor> - 1 else - bitlen (\<lceil>1 / q\<rceil> - 1))"

definition round_half_even :: "rat \<Rightarrow> int" where
  "round_half_even x =
     (let n = \<lfloor>x\<rfloor>; d = x - of_int n
      in if d < 1 / 2 then n else if 1 / 2 < d then n + 1 else if even n then n else n + 1)"

definition rnd :: "rat \<Rightarrow> pyfloat" where
  "rnd q =
     (if q = 0 then 0
      else let e = max (ilog2 \<bar>q\<bar> - 52) (- 1074)
           in of_int (round_half_even (q / 2 powi e)) * 2 powi e)"

datatype float64 = Fin pyfloat | PosInf | NegInf | NaN

definition max_float :: rat where
  \<comment> \<open>\<open>sys.float_info.max\<close>\<close>
  "max_float = (2 ^ 53 - 1) * 2 ^ 971"

definition round64 :: "rat \<Rightarrow> float64" where
  "round64 q =
     (let r = rnd q
      in if max_float < r then PosInf else if r < - max_float then NegInf else Fin r)"

fun fneg :: "float64 \<Rightarrow> float64" where
  "fneg (Fin a) = Fin (- a)"
| "fneg PosInf = NegInf"
| "fneg NegInf = PosInf"
| "fneg NaN = NaN"

fun fadd :: "float64 \<Rightarrow> float64 \<Rightarrow> float64" where
  \<comment> \<open>\<open>x + y\<close> on two floats\<close>
  "fadd (Fin a) (Fin b) = round64 (a + b)"
| "fadd (Fin a) y = y"
| "fadd x (Fin b) = x"
| "fadd PosInf PosInf = PosInf"
| "fadd NegInf NegInf = NegInf"
| "fadd x y = NaN"

fun fsub :: "float64 \<Rightarrow> float64 \<Rightarrow> float64" where
  \<comment> \<open>\<open>x - y\<close> on two floats\<close>
  "fsub (Fin a) (Fin b) = round64 (a - b)"
| "fsub (Fin a) y = fneg y"
| "fsub x (Fin b) = x"
| "fsub PosInf NegInf = PosInf"
| "fsub NegInf PosInf = NegInf"
| "fsub x y = NaN"

fun fmul :: "float64 \<Rightarrow> float64 \<Rightarrow> float64" where
  \<comment> \<open>\<open>x * y\<close> on two floats\<close>
  "fmul (Fin a) (Fin b) = round64 (a * b)"
| "fmul NaN y = NaN"
| "fmul x NaN = NaN"
| "fmul (Fin a) y = (if a = 0 then NaN else if 0 < a then y else fneg y)"
| "fmul x (Fin b) = (if b = 0 then NaN else if 0 < b then x else fneg x)"
| "fmul x y = (if x = y then PosInf else NegInf)"

fun fdiv :: "float64 \<Rightarrow> float64 \<Rightarrow> py_error + float64" where
  \<comment> \<open>\<open>x / y\<close> on two floats: a zero divisor raises, whatever the dividend\<close>
  "fdiv x (Fin b) =
     (if b = 0 then Inl ZeroDivisionError
      else Inr (case x of
                  Fin a \<Rightarrow> round64 (a / b)
                | PosInf \<Rightarrow> if 0 < b then PosInf else NegInf
                | NegInf \<Rightarrow> if 0 < b then NegInf else PosInf
                | NaN \<Rightarrow> NaN))"
| "fdiv (Fin a) NaN = Inr NaN"
| "fdiv (Fin a) y = Inr (Fin 0)"
| "fdiv x y = Inr NaN"

definition float_of_int :: "int \<Rightarrow> py_error + float64" where
  \<comment> \<open>the conversion of an int operand of a float operation: the nearest float, or
      \<open>OverflowError\<close> when that is beyond the largest finite float\<close>
  "float_of_int i =
     (let r = rnd (of_int i) in if max_float < \<bar>r\<bar> then Inl OverflowError else Inr (Fin r))"

definition int_truediv :: "int \<Rightarrow> int \<Rightarrow> py_error + pyfloat" where
  \<comment> \<open>\<open>a / b\<close> on two Python ints: the correctly rounded quotient, a finite float\<close>
  "int_truediv a b =
     (if b = 0 then Inl ZeroDivisionError
      else let r = rnd (of_int a / of_int b)
           in if max_float < \<bar>r\<bar> then Inl OverflowError else Inr r)"

definition py_trunc :: "rat \<Rightarrow> int" where
  \<comment> \<open>truncation towards zero\<close>
  "py_trunc x = (if 0 \<le> x then \<lfloor>x\<rfloor> else \<lceil>x\<rceil>)"

fun py_int :: "float64 \<Rightarrow> py_error + int" where
  \<comment> \<open>\<open>int(x)\<close> on a float\<close>
  "py_int (Fin x) = Inr (py_trunc x)"
| "py_int NaN = Inl ValueError"
| "py_int PosInf = Inl OverflowError"
| "py_int NegInf = Inl OverflowError"

section \<open>bbox_utils.py\<close>

datatype CoordOrigin = TOPLEFT | TOPRIGHT | BOTTOMLEFT | BOTTOMRIGHT | CENTER

fun origin_name :: "CoordOrigin \<Rightarrow> string" where
  "origin_name TOPLEFT = ''TOPLEFT''"
| "origin_name TOPRIGHT = ''TOPRIGHT''"
| "origin_name BOTTOMLEFT = ''BOTTOMLEFT''"
| "origin_name BOTTOMRIGHT = ''BOTTOMRIGHT''"
| "origin_name CENTER = ''CENTER''"

text \<open>
  What a \<open>coord_origin\<close> attribute can hold: a member of an enumeration, which has a
  \<open>value\<close>, or a bare string, which has none.
\<close>

datatype origin_obj = OriginEnum CoordOrigin | OriginStr string

fun origin_value :: "origin_obj \<Rightarrow> string" where
  \<comment> \<open>\<open>origin.value if hasattr(origin, 'value') else origin\<close>\<close>
  "origin_value (OriginEnum c) = origin_name c"
| "origin_value (OriginStr s) = s"

record BoundingBox =
  bb_l :: float64
  bb_t :: float64
  bb_r :: float64
  bb_b :: float64
  bb_coord_origin :: origin_obj

text \<open>
  A provenance record. \<open>prov_bbox\<close> and \<open>prov_coord_origin\<close> are \<open>None\<close> when the
  record has no such attribute (\<open>getattr\<close> with a default).
\<close>

record ProvenanceItem =
  page_no :: int
  prov_bbox :: "BoundingBox option"
  prov_coord_origin :: "origin_obj option"

text \<open>
  What \<open>get_pixel_bbox\<close> reads of an item: its \<open>prov\<close> attribute (\<open>None\<close> when the item
  has none) and its \<open>bbox\<close> attribute (\<open>None\<close> when absent or \<open>None\<close>; reading a field
  through it then raises \<open>AttributeError\<close>).
\<close>

record item =
  item_prov :: "ProvenanceItem list option"
  item_bbox :: "BoundingBox option"

type_synonym pixel_box = "int \<times> int \<times> int \<times> int"

definition has_prov :: "item \<Rightarrow> bool" where
  \<comment> \<open>\<open>hasattr(item, 'prov') and item.prov\<close>\<close>
  "has_prov it = (case item_prov it of None \<Rightarrow> False | Some ps \<Rightarrow> ps \<noteq> [])"

definition item_bbox_origin :: "item \<Rightarrow> py_error + (BoundingBox option \<times> string)" where
  \<comment> \<open>lines 23 to 25: the box and the origin string the conversion works with\<close>
  "item_bbox_origin it =
     (if has_prov it then
        (let p = hd (the (item_prov it));
             origin = (case prov_coord_origin p of None \<Rightarrow> OriginEnum BOTTOMLEFT | Some x \<Rightarrow> x)
         in Inr (prov_bbox p, origin_value origin))
      else (case item_bbox it of
              None \<Rightarrow> Inl AttributeError
            | Some bb \<Rightarrow> Inr (Some bb, origin_value (bb_coord_origin bb))))"

definition to_px :: "float64 \<Rightarrow> float64 \<Rightarrow> int \<Rightarrow> py_error + int" where
  \<comment> \<open>\<open>int((v / pdf) * img)\<close>: the division, the conversion of \<open>img\<close>, the product, \<open>int\<close>\<close>
  "to_px v pdf img =
     bind_r (fdiv v pdf) (\<lambda>q.
     bind_r (float_of_int img) (\<lambda>i. py_int (fmul q i)))"

definition to_px_center :: "float64 \<Rightarrow> float64 \<Rightarrow> float64 \<Rightarrow> int \<Rightarrow> py_error + int" where
  \<comment> \<open>\<open>int(((cy - v) / pdf_h) * img_h + img_h/2)\<close>\<close>
  "to_px_center cy v pdf_h img_h =
     bind_r (fdiv (fsub cy v) pdf_h) (\<lambda>q.
     bind_r (float_of_int img_h) (\<lambda>i.
     bind_r (int_truediv img_h 2) (\<lambda>half.
       py_int (fadd (fmul q i) (Fin half)))))"

definition convert_bbox ::
  "BoundingBox option \<Rightarrow> string \<Rightarrow> float64 \<Rightarrow> float64 \<Rightarrow> int \<Rightarrow> int \<Rightarrow> py_error + pixel_box" where
  \<comment> \<open>lines 27 to 47: the conversion of the box found, under the origin string found\<close>
  "convert_bbox bbox_opt origin pdf_w pdf_h img_w img_h =
     (case bbox_opt of
       None \<Rightarrow> Inl AttributeError
     | Some bbox \<Rightarrow>
         bind_r (if origin \<in> set [origin_name TOPLEFT, origin_name BOTTOMLEFT, origin_name CENTER]
                 then bind_r (to_px (bb_l bbox) pdf_w img_w) (\<lambda>x1.
                      bind_r (to_px (bb_r bbox) pdf_w img_w) (\<lambda>x2. Inr (x1, x2)))
                 else bind_r (to_px (fsub pdf_w (bb_r bbox)) pdf_w img_w) (\<lambda>x1.
                      bind_r (to_px (fsub pdf_w (bb_l bbox)) pdf_w img_w) (\<lambda>x2. Inr (x1, x2))))
           (\<lambda>(x1, x2).
         bind_r (if origin \<in> set [origin_name TOPLEFT, origin_name TOPRIGHT]
                 then bind_r (to_px (bb_t bbox) pdf_h img_h) (\<lambda>y1.
                      bind_r (to_px (bb_b bbox) pdf_h img_h) (\<lambda>y2. Inr (y1, y2)))
                 else if origin \<in> set [origin_name BOTTOMLEFT, origin_name BOTTOMRIGHT]
                 then bind_r (to_px (fsub pdf_h (bb_t bbox)) pdf_h img_h) (\<lambda>y1.
                      bind_r (to_px (fsub pdf_h (bb_b bbox)) pdf_h img_h) (\<lambda>y2. Inr (y1, y2)))
                 else bind_r (fdiv pdf_w (Fin 2)) (\<lambda>cx.
                      bind_r (fdiv pdf_h (Fin 2)) (\<lambda>cy.
                      bind_r (to_px_center cy (bb_t bbox) pdf_h img_h) (\<lambda>y1.
                      bind_r (to_px_center cy (bb_b bbox) pdf_h img_h) (\<lambda>y2. Inr (y1, y2))))))
           (\<lambda>(y1, y2). Inr (x1, y1, x2, y2))))"

definition get_pixel_bbox ::
  "item \<Rightarrow> float64 \<Rightarrow> float64 \<Rightarrow> int \<Rightarrow> int \<Rightarrow> py_error + pixel_box" where
  "get_pixel_bbox it pdf_w pdf_h img_w img_h =
     bind_r (item_bbox_origin it) (\<lambda>(bbox_opt, origin).
       convert_bbox bbox_opt origin pdf_w pdf_h img_w img_h)"

text \<open>
  The conversion in the words of its specification, on finite edges \<open>l\<close>, \<open>t\<close>, \<open>r\<close>, \<open>b\<close>
  and page sizes, by coordinate origin: the horizontal rule for left and right origins,
  the vertical rule for top, bottom and centre origins, every operation rounded to double
  precision (\<open>rnd\<close>) and every result truncated to an integer.
\<close>

definition scale_px :: "rat \<Rightarrow> rat \<Rightarrow> int \<Rightarrow> int" where
  \<comment> \<open>\<open>int(v / pdf * img)\<close> for a non-zero \<open>pdf\<close>\<close>
  "scale_px v pdf img = py_trunc (rnd (rnd (v / pdf) * rnd (of_int img)))"

definition scale_px_center :: "rat \<Rightarrow> rat \<Rightarrow> int \<Rightarrow> int" where
  \<comment> \<open>\<open>int((pdfH/2 - v) / pdfH * imgH + imgH/2)\<close> for a non-zero \<open>pdfH\<close>\<close>
  "scale_px_center v pdf_h img_h =
     py_trunc (rnd (rnd (rnd (rnd (rnd (pdf_h / 2) - v) / pdf_h) * rnd (of_int img_h))
                    + rnd (of_int img_h / 2)))"

fun toPixelX :: "CoordOrigin \<Rightarrow> rat \<Rightarrow> rat \<Rightarrow> rat \<Rightarrow> int \<Rightarrow> int \<times> int" where
  "toPixelX TOPLEFT l r pdfW imgW = (scale_px l pdfW imgW, scale_px r pdfW imgW)"
| "toPixelX BOTTOMLEFT l r pdfW imgW = (scale_px l pdfW imgW, scale_px r pdfW imgW)"
| "toPixelX CENTER l r pdfW imgW = (scale_px l pdfW imgW, scale_px r pdfW imgW)"
| "toPixelX TOPRIGHT l r pdfW imgW =
     (scale_px (rnd (pdfW - r)) pdfW imgW, scale_px (rnd (pdfW - l)) pdfW imgW)"
| "toPixelX BOTTOMRIGHT l r pdfW imgW =
     (scale_px (rnd (pdfW - r)) pdfW imgW, scale_px (rnd (pdfW - l)) pdfW imgW)"

fun toPixelY :: "CoordOrigin \<Rightarrow> rat \<Rightarrow> rat \<Rightarrow> rat \<Rightarrow> int \<Rightarrow> int \<times> int" where
  "toPixelY TOPLEFT t b pdfH imgH = (scale_px t pdfH imgH, scale_px b pdfH imgH)"
| "toPixelY TOPRIGHT t b pdfH imgH = (scale_px t pdfH imgH, scale_px b pdfH imgH)"
| "toPixelY BOTTOMLEFT t b pdfH imgH =
     (scale_px (rnd (pdfH - t)) pdfH imgH, scale_px (rnd (pdfH - b)) pdfH imgH)"
| "toPixelY BOTTOMRIGHT t b pdfH imgH =
     (scale_px (rnd (pdfH - t)) pdfH imgH, scale_px (rnd (pdfH - b)) pdfH imgH)"
| "toPixelY CENTER t b pdfH imgH = (scale_px_center t pdfH imgH, scale_px_center b pdfH imgH)"

definition toPixelBBox ::
  "(rat \<times> rat \<times> rat \<times> rat) \<Rightarrow> CoordOrigin \<Rightarrow> rat \<Rightarrow> rat \<Rightarrow> int \<Rightarrow> int \<Rightarrow> pixel_box" where
  "toPixelBBox box origin pdfW pdfH imgW imgH =
     (case box of (l, t, r, b) \<Rightarrow>
        (case (toPixelX origin l r pdfW imgW, toPixelY origin t b pdfH imgH) of
           ((x1, x2), (y1, y2)) \<Rightarrow> (x1, y1, x2, y2)))"

definition calculate_overlap_ratio :: "pixel_box \<Rightarrow> pixel_box \<Rightarrow> pyfloat" where
  "calculate_overlap_ratio boxA boxB =
     (case (boxA, boxB) of ((a0, a1, a2, a3), (b0, b1, b2, b3)) \<Rightarrow>
        let xA = max a0 b0; yA = max a1 b1;
            xB = min a2 b2; yB = min a3 b3;
            inter_width = max 0 (xB - xA);
            inter_height = max 0 (yB - yA);
            inter_area = inter_width * inter_height;
            area_A = (a2 - a0) * (a3 - a1)
        in if area_A > 0 then rnd (of_int inter_area / of_int area_A) else 0)"

text \<open>
  The overlap ratio in the words of its specification: the area of the intersection over
  the area of the first box.
\<close>

definition box_area :: "pixel_box \<Rightarrow> int" where
  "box_area A = (case A of (x1, y1, x2, y2) \<Rightarrow> (x2 - x1) * (y2 - y1))"

definition intersection_area :: "pixel_box \<Rightarrow> pixel_box \<Rightarrow> int" where
  "intersection_area A B =
     (case (A, B) of ((ax1, ay1, ax2, ay2), (bx1, by1, bx2, by2)) \<Rightarrow>
        max 0 (min ax2 bx2 - max ax1 bx1) * max 0 (min ay2 by2 - max ay1 by1))"

definition boxes_intersect :: "pixel_box \<Rightarrow> pixel_box \<Rightarrow> bool" where
  "boxes_intersect A B =
     (case (A, B) of ((ax1, ay1, ax2, ay2), (bx1, by1, bx2, by2)) \<Rightarrow>
        max ax1 bx1 < min ax2 bx2 \<and> max ay1 by1 < min ay2 by2)"

definition well_oriented :: "pixel_box \<Rightarrow> bool" where
  "well_oriented A = (case A of (x1, y1, x2, y2) \<Rightarrow> x1 < x2 \<and> y1 < y2)"

record TableCell =
  cell_text :: "nat list"
  cell_bbox :: "BoundingBox option"
  start_row_offset_idx :: int
  start_col_offset_idx :: int

definition int_plus_float :: "int \<Rightarrow> float64 \<Rightarrow> py_error + float64" where
  \<comment> \<open>\<open>t + c\<close> on an int and a float: the int is converted first\<close>
  "int_plus_float t c = bind_r (float_of_int t) (\<lambda>ft. Inr (fadd ft c))"

definition px_to_pdf :: "float64 \<Rightarrow> int \<Rightarrow> float64 \<Rightarrow> py_error + float64" where
  \<comment> \<open>\<open>(full_px / img) * pdf\<close>: the conversion of \<open>img\<close>, the division, the product\<close>
  "px_to_pdf full_px img pdf =
     bind_r (float_of_int img) (\<lambda>i.
     bind_r (fdiv full_px i) (\<lambda>q. Inr (fmul q pdf)))"

definition update_cell_bbox ::
  "TableCell \<Rightarrow> (float64 \<times> float64 \<times> float64 \<times> float64) \<Rightarrow> pixel_box \<Rightarrow> (int \<times> int)
     \<Rightarrow> float64 \<Rightarrow> float64 \<Rightarrow> py_error + TableCell" where
  \<comment> \<open>the int \<open>thr = 4\<close> is converted to the float \<open>4\<close> by \<open>+=\<close> and \<open>-=\<close>\<close>
  "update_cell_bbox cell surya_bbox table_bbox page_dim pdf_w pdf_h =
     (case (table_bbox, page_dim, surya_bbox) of
        ((tx1, ty1, tx2, ty2), (img_w, img_h), (cx1, cy1, cx2, cy2)) \<Rightarrow>
          bind_r (int_plus_float tx1 cx1) (\<lambda>full_px1.
          bind_r (int_plus_float ty1 cy1) (\<lambda>full_py1.
          bind_r (int_plus_float tx1 cx2) (\<lambda>full_px2.
          bind_r (int_plus_float ty1 cy2) (\<lambda>full_py2.
          bind_r (px_to_pdf full_px1 img_w pdf_w) (\<lambda>pdf_l.
          bind_r (px_to_pdf full_py1 img_h pdf_h) (\<lambda>pdf_t.
          bind_r (px_to_pdf full_px2 img_w pdf_w) (\<lambda>pdf_r.
          bind_r (px_to_pdf full_py2 img_h pdf_h) (\<lambda>pdf_b.
            let thr = Fin 4
            in Inr (cell\<lparr>cell_bbox := Some \<lparr>bb_l = fadd pdf_l thr, bb_t = fadd pdf_t thr,
                                          bb_r = fsub pdf_r thr, bb_b = fsub pdf_b thr,
                                          bb_coord_origin = OriginEnum TOPLEFT\<rparr>\<rparr>))))))))))"

text \<open>
  The write-back in the words of its specification, on finite values: a pixel edge of the
  cell, given relative to the table crop, is offset by the table's top-left pixel corner
  (\<open>offset_px\<close>) and mapped back to document units by the inverse of the top-left pixel
  formula (\<open>inverse_topleft\<close>), every operation rounded to double precision; the four
  edges so mapped are the naively inverse-mapped box.
\<close>

definition offset_px :: "int \<Rightarrow> rat \<Rightarrow> rat" where
  \<comment> \<open>\<open>t + c\<close>\<close>
  "offset_px t c = rnd (rnd (of_int t) + c)"

definition inverse_topleft :: "rat \<Rightarrow> int \<Rightarrow> rat \<Rightarrow> rat" where
  \<comment> \<open>\<open>px / img * pdf\<close> for a non-zero \<open>img\<close>\<close>
  "inverse_topleft px img pdf = rnd (rnd (px / rnd (of_int img)) * pdf)"

definition naive_inverse_box ::
  "(rat \<times> rat \<times> rat \<times> rat) \<Rightarrow> (int \<times> int) \<Rightarrow> int \<Rightarrow> int \<Rightarrow> rat \<Rightarrow> rat
     \<Rightarrow> (rat \<times> rat \<times> rat \<times> rat)" where
  "naive_inverse_box cellPixelBox tableOriginPixel imgW imgH pdfW pdfH =
     (case (cellPixelBox, tableOriginPixel) of ((cx1, cy1, cx2, cy2), (tx, ty)) \<Rightarrow>
        (inverse_topleft (offset_px tx cx1) imgW pdfW,
         inverse_topleft (offset_px ty cy1) imgH pdfH,
         inverse_topleft (offset_px tx cx2) imgW pdfW,
         inverse_topleft (offset_px ty cy2) imgH pdfH))"

section \<open>text_quality_analyzer.py\<close>

text \<open>
  A Python string is the list of its code points. The Unicode character database behind
  \<open>str.strip\<close>, \<open>str.isdigit\<close>, \<open>str.isalpha\<close> and \<open>unicodedata.name\<close> is not part of the
  package; it is a parameter. \<open>ucd_name\<close> is \<open>None\<close> for a code point without a name, where
  \<open>unicodedata.name\<close> raises \<open>ValueError\<close> or returns its default. \<open>ucd_isdecimal\<close>
  (\<open>str.isdecimal\<close>) is not consulted by the analyzer; it is there to state what a decimal
  digit is.
\<close>

type_synonym pystr = "nat list"

record unicode_db =
  ucd_isspace :: "nat \<Rightarrow> bool"
  ucd_isdecimal :: "nat \<Rightarrow> bool"
  ucd_isdigit :: "nat \<Rightarrow> bool"
  ucd_isalpha :: "nat \<Rightarrow> bool"
  ucd_name :: "nat \<Rightarrow> string option"

definition py_strip :: "unicode_db \<Rightarrow> pystr \<Rightarrow> pystr" where
  \<comment> \<open>\<open>text.strip()\<close>\<close>
  "py_strip U s = rev (dropWhile (ucd_isspace U) (rev (dropWhile (ucd_isspace U) s)))"

fun str_in :: "string \<Rightarrow> string \<Rightarrow> bool" where
  \<comment> \<open>\<open>sub in s\<close> on two strings\<close>
  "str_in sub [] = (sub = [])"
| "str_in sub (c # cs) = (prefix sub (c # cs) \<or> str_in sub cs)"

definition error_chars :: "nat list" where
  "error_chars = [0xF09D, 0xFFFD, 0xF0AB, 0x00, 0x1A, 0xFFFD]"

fun is_valid_non_ascii :: "unicode_db \<Rightarrow> pystr \<Rightarrow> bool" where
  "is_valid_non_ascii U [] = True"
| "is_valid_non_ascii U (char # rest) =
     (if char > 127 then
        (case ucd_name U char of
           None \<Rightarrow> False
         | Some name \<Rightarrow>
             if list_ex (\<lambda>script. str_in script name) [''ARABIC'', ''LATIN'', ''MATHEMATICAL'']
             then is_valid_non_ascii U rest
             else False)
      else is_valid_non_ascii U rest)"

definition has_encoding_issues :: "unicode_db \<Rightarrow> pystr \<Rightarrow> bool" where
  "has_encoding_issues U text =
     (if list_ex (\<lambda>char. char \<in> set text) error_chars then True
      else if list_ex (\<lambda>c. c > 127) text \<and> \<not> is_valid_non_ascii U text then True
      else False)"

definition needs_formula_enhancement :: "unicode_db \<Rightarrow> pystr \<Rightarrow> bool" where
  "needs_formula_enhancement U text =
     (let has_digit = list_ex (ucd_isdigit U) text;
          has_latin = list_ex (\<lambda>c. str_in ''LATIN'' (case ucd_name U c of None \<Rightarrow> [] | Some n \<Rightarrow> n))
                        (filter (ucd_isalpha U) text)
      in has_latin \<and> has_digit)"

record quality =
  encoding :: bool
  formula :: bool

definition needs_ocr_enhancement :: "unicode_db \<Rightarrow> pystr \<Rightarrow> bool \<Rightarrow> bool \<Rightarrow> quality" where
  "needs_ocr_enhancement U text check_formula check_encoding =
     (if text = [] \<or> py_strip U text = [] then \<lparr>encoding = False, formula = False\<rparr>
      else \<lparr>encoding = (if check_encoding then has_encoding_issues U text else False),
            formula = (if check_formula then needs_formula_enhancement U text else False)\<rparr>)"

text \<open>
  The conditions of the specification: a character of an accepted script, and the rows of
  the Unicode character database (version 14, as \<open>unicodedata\<close> reports them) for the code
  points of the examples: code point, name, \<open>isspace\<close>, \<open>isdecimal\<close>, \<open>isdigit\<close>, \<open>isalpha\<close>.
  \<open>ucd_excerpt\<close> gives no property to any other code point.
\<close>

definition accepted_script :: "unicode_db \<Rightarrow> nat \<Rightarrow> bool" where
  "accepted_script U c =
     (case ucd_name U c of
        None \<Rightarrow> False
      | Some n \<Rightarrow> str_in ''ARABIC'' n \<or> str_in ''LATIN'' n \<or> str_in ''MATHEMATICAL'' n)"

definition latin_letter :: "unicode_db \<Rightarrow> nat \<Rightarrow> bool" where
  "latin_letter U c =
     (ucd_isalpha U c \<and> (case ucd_name U c of None \<Rightarrow> False | Some n \<Rightarrow> str_in ''LATIN'' n))"

definition ucd_rows :: "(nat \<times> string option \<times> bool \<times> bool \<times> bool \<times> bool) list" where
  "ucd_rows =
     [(0x00, None, False, False, False, False),
      (0x1A, None, False, False, False, False),
      (0x20, Some ''SPACE'', True, False, False, False),
      (0x32, Some ''DIGIT TWO'', False, True, True, False),
      (0x3D, Some ''EQUALS SIGN'', False, False, False, False),
      (0x61, Some ''LATIN SMALL LETTER A'', False, False, False, True),
      (0x78, Some ''LATIN SMALL LETTER X'', False, False, False, True),
      (0x79, Some ''LATIN SMALL LETTER Y'', False, False, False, True),
      (0xB2, Some ''SUPERSCRIPT TWO'', False, False, True, False),
      (0xE9, Some ''LATIN SMALL LETTER E WITH ACUTE'', False, False, False, True),
      (0x628, Some ''ARABIC LETTER BEH'', False, False, False, True),
      (0x631, Some ''ARABIC LETTER REH'', False, False, False, True),
      (0x635, Some ''ARABIC LETTER SAD'', False, False, False, True),
      (0x639, Some ''ARABIC LETTER AIN'', False, False, False, True),
      (0x646, Some ''ARABIC LETTER NOON'', False, False, False, True),
      (0x64A, Some ''ARABIC LETTER YEH'', False, False, False, True),
      (0x4E2D, Some ''CJK UNIFIED IDEOGRAPH-4E2D'', False, False, False, True),
      (0xFFFD, Some ''REPLACEMENT CHARACTER'', False, False, False, False)]"

definition ucd_excerpt :: unicode_db where
  "ucd_excerpt =
     \<lparr>ucd_isspace = (\<lambda>c. case map_of ucd_rows c of Some (n, sp, dc, dg, al) \<Rightarrow> sp | None \<Rightarrow> False),
      ucd_isdecimal = (\<lambda>c. case map_of ucd_rows c of Some (n, sp, dc, dg, al) \<Rightarrow> dc | None \<Rightarrow> False),
      ucd_isdigit = (\<lambda>c. case map_of ucd_rows c of Some (n, sp, dc, dg, al) \<Rightarrow> dg | None \<Rightarrow> False),
      ucd_isalpha = (\<lambda>c. case map_of ucd_rows c of Some (n, sp, dc, dg, al) \<Rightarrow> al | None \<Rightarrow> False),
      ucd_name = (\<lambda>c. case map_of ucd_rows c of Some (n, sp, dc, dg, al) \<Rightarrow> n | None \<Rightarrow> None)\<rparr>"

section \<open>ocr_enhancer.py\<close>

text \<open>
  The collaborators outside the package are parameters (\<open>externals\<close>): the Unicode database,
  the Surya models, and the Pillow, OpenCV and base64 calls. An image is its size and an
  opaque content; the confidence of a recognized line is a finite float. \<open>recognition_predictor\<close> stands for lines 113 to 134 of
  \<open>extract_text_from_region\<close>: crop the padded box, paste it on the white canvas, run the
  recognition model; it yields the predictions, or the exception one of these calls raised.
  \<open>load_predictors_ok\<close> tells whether \<open>load_predictors\<close> returns rather than raises.
\<close>

record Image =
  im_width :: int
  im_height :: int
  im_content :: nat

record TextLine =
  line_text :: pystr
  confidence :: pyfloat

record SuryaCell =
  row_id :: int
  col_id :: int
  sc_bbox :: "float64 \<times> float64 \<times> float64 \<times> float64"

record externals =
  ucd :: unicode_db
  surya_available :: bool
  load_predictors_ok :: bool
  recognition_predictor :: "Image \<Rightarrow> pixel_box \<Rightarrow> bool \<Rightarrow> py_error + TextLine list list"
  table_rec_predictor :: "Image \<Rightarrow> py_error + SuryaCell list list"
  decode_data_uri :: "string \<Rightarrow> Image option"
  preprocess_image :: "Image \<Rightarrow> Image"
  crop :: "Image \<Rightarrow> pixel_box \<Rightarrow> py_error + Image"

record OCREnhancer =
  models_loaded :: bool
  models_loading :: bool

definition load_models :: "externals \<Rightarrow> OCREnhancer \<Rightarrow> OCREnhancer" where
  "load_models ext ocr =
     (if models_loaded ocr \<or> models_loading ocr then ocr
      else if \<not> surya_available ext then ocr
      else if load_predictors_ok ext then ocr\<lparr>models_loaded := True, models_loading := False\<rparr>
      else ocr\<lparr>models_loaded := False, models_loading := False\<rparr>)"

definition ensure_loaded :: "externals \<Rightarrow> OCREnhancer \<Rightarrow> OCREnhancer" where
  \<comment> \<open>\<open>if not self._models_loaded: self._load_models()\<close>\<close>
  "ensure_loaded ext ocr = (if \<not> models_loaded ocr then load_models ext ocr else ocr)"

fun join_space :: "pystr list \<Rightarrow> pystr" where
  \<comment> \<open>\<open>' '.join(lines)\<close>\<close>
  "join_space [] = []"
| "join_space [x] = x"
| "join_space (x # y # ys) = x @ [0x20] @ join_space (y # ys)"

definition high_confidence_lines :: "TextLine list list \<Rightarrow> pystr list" where
  \<comment> \<open>lines 137 to 141; the literal \<open>0.5\<close> is the float \<open>1 / 2\<close>\<close>
  "high_confidence_lines predictions =
     (if predictions \<noteq> [] then map line_text (filter (\<lambda>line. confidence line > 1 / 2) (hd predictions))
      else [])"

definition padded_region :: "Image \<Rightarrow> pixel_box \<Rightarrow> pixel_box" where
  \<comment> \<open>lines 104 to 111: the box grown by 5 pixels, kept within the image\<close>
  "padded_region page_image bbox =
     (case bbox of (x1, y1, x2, y2) \<Rightarrow>
        let thr = 5;
            left = max (x1 - thr) 0;
            top' = max (y1 - thr) 0;
            right = min (x2 + thr) (im_width page_image);
            bottom = min (y2 + thr) (im_height page_image)
        in (left, top', right, bottom))"

definition extract_text_from_region ::
  "externals \<Rightarrow> OCREnhancer \<Rightarrow> Image \<Rightarrow> pixel_box \<Rightarrow> pystr \<Rightarrow> bool \<Rightarrow> OCREnhancer \<times> pystr" where
  "extract_text_from_region ext ocr0 page_image bbox old_text math_mode =
     (let ocr = ensure_loaded ext ocr0
      in if \<not> models_loaded ocr then (ocr, old_text)
         else (case recognition_predictor ext page_image (padded_region page_image bbox) math_mode of
                 Inl e \<Rightarrow> (ocr, old_text)
               | Inr predictions \<Rightarrow>
                   let lines = high_confidence_lines predictions;
                       enhanced_text = py_strip (ucd ext) (join_space lines)
                   in (ocr, if enhanced_text \<noteq> [] then enhanced_text else old_text)))"

record TableItem =
  table_prov :: "ProvenanceItem list option"
  table_cells :: "TableCell list"

fun update_cells ::
  "((int \<times> int) \<rightharpoonup> SuryaCell) \<Rightarrow> pixel_box \<Rightarrow> (int \<times> int) \<Rightarrow> float64 \<Rightarrow> float64
     \<Rightarrow> TableCell list \<Rightarrow> TableCell list" where
  \<comment> \<open>the loop of lines 173 to 181; an exception ends it, the cells written so far stay\<close>
  "update_cells surya_cell_dict table_bbox page_dim pdf_w pdf_h [] = []"
| "update_cells surya_cell_dict table_bbox page_dim pdf_w pdf_h (cell # cells) =
     (case surya_cell_dict (start_row_offset_idx cell, start_col_offset_idx cell) of
        None \<Rightarrow> cell # update_cells surya_cell_dict table_bbox page_dim pdf_w pdf_h cells
      | Some surya_cell \<Rightarrow>
          (case update_cell_bbox cell (sc_bbox surya_cell) table_bbox page_dim pdf_w pdf_h of
             Inl e \<Rightarrow> cell # cells
           | Inr cell' \<Rightarrow>
               cell' # update_cells surya_cell_dict table_bbox page_dim pdf_w pdf_h cells))"

definition enhance_table_structure ::
  "externals \<Rightarrow> OCREnhancer \<Rightarrow> Image \<Rightarrow> (int \<times> int) \<Rightarrow> TableItem \<Rightarrow> pixel_box \<Rightarrow> float64 \<Rightarrow> float64
     \<Rightarrow> OCREnhancer \<times> TableItem" where
  "enhance_table_structure ext ocr0 table_image page_dim table_item table_bbox pdf_w pdf_h =
     (let ocr = ensure_loaded ext ocr0
      in if \<not> models_loaded ocr then (ocr, table_item)
         else (case table_rec_predictor ext table_image of
                 Inl e \<Rightarrow> (ocr, table_item)
               | Inr table_predictions \<Rightarrow>
                   if table_predictions = [] then (ocr, table_item)
                   else
                     let surya_table = hd table_predictions;
                         surya_cell_dict =
                           map_of (rev (map (\<lambda>cell. ((row_id cell, col_id cell), cell)) surya_table))
                     in (ocr, table_item\<lparr>table_cells :=
                           update_cells surya_cell_dict table_bbox page_dim pdf_w pdf_h
                             (table_cells table_item)\<rparr>)))"

section \<open>document_processor.py\<close>

text \<open>
  The document is edited in place, and an exception leaves it as edited so far: a step
  returns the exception raised, if any, together with the state it leaves behind.
\<close>

record TextItem =
  text_prov :: "ProvenanceItem list option"
  text_text :: pystr

record Page =
  page_width :: float64
  page_height :: float64
  page_image_uri :: "string option"

record Document =
  pages :: "(int \<times> Page) list"
  texts :: "TextItem list"
  tables :: "TableItem list"
  pictures :: "item list"
  form_items :: "item list"
  key_value_items :: "item list"

record DocumentEnhancer =
  enable_formula_enhancement :: bool
  enable_character_encoding_fix :: bool
  ocr_enhancer :: OCREnhancer

definition on_page :: "ProvenanceItem list option \<Rightarrow> int \<Rightarrow> bool" where
  \<comment> \<open>\<open>hasattr(item, 'prov') and item.prov and item.prov[0].page_no == page_num\<close>\<close>
  "on_page prov page_num =
     (case prov of None \<Rightarrow> False | Some [] \<Rightarrow> False | Some (p # ps) \<Rightarrow> page_no p = page_num)"

definition text_as_item :: "TextItem \<Rightarrow> item" where
  "text_as_item t = \<lparr>item_prov = text_prov t, item_bbox = None\<rparr>"

definition table_as_item :: "TableItem \<Rightarrow> item" where
  "table_as_item t = \<lparr>item_prov = table_prov t, item_bbox = None\<rparr>"

definition cell_as_item :: "TableCell \<Rightarrow> item" where
  \<comment> \<open>a table cell has no \<open>prov\<close> attribute\<close>
  "cell_as_item c = \<lparr>item_prov = None, item_bbox = cell_bbox c\<rparr>"

definition should_enhance_text :: "externals \<Rightarrow> DocumentEnhancer \<Rightarrow> pystr \<Rightarrow> quality" where
  "should_enhance_text ext de txt =
     needs_ocr_enhancement (ucd ext) txt (enable_formula_enhancement de)
       (enable_character_encoding_fix de)"

definition triggers :: "quality \<Rightarrow> bool" where
  \<comment> \<open>\<open>True in d.values()\<close>\<close>
  "triggers q = (encoding q \<or> formula q)"

fun loop_items ::
  "('s \<Rightarrow> 'a \<Rightarrow> py_error option \<times> 's \<times> 'a) \<Rightarrow> 's \<Rightarrow> 'a list \<Rightarrow> py_error option \<times> 's \<times> 'a list" where
  \<comment> \<open>a \<open>for\<close> loop whose body may edit the element in place and may raise\<close>
  "loop_items body s [] = (None, s, [])"
| "loop_items body s (x # xs) =
     (case body s x of
        (Some e, s', x') \<Rightarrow> (Some e, s', x' # xs)
      | (None, s', x') \<Rightarrow>
          (case loop_items body s' xs of (r, s'', xs') \<Rightarrow> (r, s'', x' # xs')))"

fun collect_boxes ::
  "int \<Rightarrow> float64 \<Rightarrow> float64 \<Rightarrow> int \<Rightarrow> int \<Rightarrow> item list \<Rightarrow> py_error + pixel_box list" where
  "collect_boxes page_num pdf_w pdf_h img_w img_h [] = Inr []"
| "collect_boxes page_num pdf_w pdf_h img_w img_h (it # its) =
     (if on_page (item_prov it) page_num then
        bind_r (get_pixel_bbox it pdf_w pdf_h img_w img_h) (\<lambda>bbox.
        bind_r (collect_boxes page_num pdf_w pdf_h img_w img_h its) (\<lambda>rest. Inr (bbox # rest)))
      else collect_boxes page_num pdf_w pdf_h img_w img_h its)"

definition non_text_items :: "Document \<Rightarrow> item list" where
  \<comment> \<open>\<open>["pictures", "form_items", "key_value_items", "tables"]\<close>, in this order\<close>
  "non_text_items document =
     pictures document @ form_items document @ key_value_items document
       @ map table_as_item (tables document)"

definition collect_non_text_bboxes ::
  "int \<Rightarrow> float64 \<Rightarrow> float64 \<Rightarrow> int \<Rightarrow> int \<Rightarrow> Document \<Rightarrow> py_error + pixel_box list" where
  "collect_non_text_bboxes page_num pdf_w pdf_h img_w img_h document =
     collect_boxes page_num pdf_w pdf_h img_w img_h (non_text_items document)"

definition process_cell ::
  "externals \<Rightarrow> Image \<Rightarrow> float64 \<Rightarrow> float64 \<Rightarrow> int \<Rightarrow> int \<Rightarrow> DocumentEnhancer \<Rightarrow> TableCell
     \<Rightarrow> py_error option \<times> DocumentEnhancer \<times> TableCell" where
  \<comment> \<open>the body of the loop of lines 119 to 126\<close>
  "process_cell ext page_image pdf_w pdf_h img_w img_h de cell =
     (if triggers (should_enhance_text ext de (cell_text cell)) then
        let need_formula_enhancement = formula (should_enhance_text ext de (cell_text cell))
        in case get_pixel_bbox (cell_as_item cell) pdf_w pdf_h img_w img_h of
             Inl e \<Rightarrow> (Some e, de, cell)
           | Inr cell_box \<Rightarrow>
               (case extract_text_from_region ext (ocr_enhancer de) page_image cell_box
                       (cell_text cell) need_formula_enhancement of
                  (ocr, enhanced_text) \<Rightarrow>
                    (None, de\<lparr>ocr_enhancer := ocr\<rparr>,
                     if enhanced_text \<noteq> [] \<and> enhanced_text \<noteq> cell_text cell
                     then cell\<lparr>cell_text := enhanced_text\<rparr> else cell))
      else (None, de, cell))"

definition process_table ::
  "externals \<Rightarrow> int \<Rightarrow> Image \<Rightarrow> float64 \<Rightarrow> float64 \<Rightarrow> int \<Rightarrow> int \<Rightarrow> DocumentEnhancer \<Rightarrow> TableItem
     \<Rightarrow> py_error option \<times> DocumentEnhancer \<times> TableItem" where
  \<comment> \<open>the body of the loop of lines 105 to 126\<close>
  "process_table ext page_num page_image pdf_w pdf_h img_w img_h de table =
     (if \<not> on_page (table_prov table) page_num then (None, de, table)
      else case get_pixel_bbox (table_as_item table) pdf_w pdf_h img_w img_h of
             Inl e \<Rightarrow> (Some e, de, table)
           | Inr table_bbox \<Rightarrow>
               (case crop ext page_image table_bbox of
                  Inl e \<Rightarrow> (Some e, de, table)
                | Inr table_image \<Rightarrow>
                    (case enhance_table_structure ext (ocr_enhancer de) table_image (img_w, img_h)
                            table table_bbox pdf_w pdf_h of
                       (ocr, table1) \<Rightarrow>
                         (case loop_items (process_cell ext page_image pdf_w pdf_h img_w img_h)
                                 (de\<lparr>ocr_enhancer := ocr\<rparr>) (table_cells table1) of
                            (r, de', cells) \<Rightarrow> (r, de', table1\<lparr>table_cells := cells\<rparr>)))))"

definition process_tables ::
  "externals \<Rightarrow> int \<Rightarrow> Image \<Rightarrow> float64 \<Rightarrow> float64 \<Rightarrow> int \<Rightarrow> int \<Rightarrow> DocumentEnhancer \<Rightarrow> Document
     \<Rightarrow> py_error option \<times> DocumentEnhancer \<times> Document" where
  "process_tables ext page_num page_image pdf_w pdf_h img_w img_h de document =
     (case loop_items (process_table ext page_num page_image pdf_w pdf_h img_w img_h) de
             (tables document) of
        (r, de', ts) \<Rightarrow> (r, de', document\<lparr>tables := ts\<rparr>))"

definition process_text_element ::
  "externals \<Rightarrow> int \<Rightarrow> Image \<Rightarrow> float64 \<Rightarrow> float64 \<Rightarrow> int \<Rightarrow> int \<Rightarrow> pixel_box list
     \<Rightarrow> DocumentEnhancer \<Rightarrow> TextItem \<Rightarrow> py_error option \<times> DocumentEnhancer \<times> TextItem" where
  \<comment> \<open>the body of the loop of lines 137 to 158; the literal \<open>0.05\<close> is the float nearest \<open>1 / 20\<close>\<close>
  "process_text_element ext page_num page_image pdf_w pdf_h img_w img_h non_text_bboxes de txt =
     (if \<not> on_page (text_prov txt) page_num then (None, de, txt)
      else case get_pixel_bbox (text_as_item txt) pdf_w pdf_h img_w img_h of
             Inl e \<Rightarrow> (Some e, de, txt)
           | Inr text_bbox \<Rightarrow>
               let has_overlap =
                     list_ex (\<lambda>other_bbox. calculate_overlap_ratio text_bbox other_bbox > rnd (1 / 20))
                       non_text_bboxes
               in if has_overlap then (None, de, txt)
                  else if triggers (should_enhance_text ext de (text_text txt)) then
                    let need_formula_enhancement =
                          formula (should_enhance_text ext de (text_text txt))
                    in case extract_text_from_region ext (ocr_enhancer de) page_image text_bbox
                              (text_text txt) need_formula_enhancement of
                         (ocr, enhanced_text) \<Rightarrow>
                           (None, de\<lparr>ocr_enhancer := ocr\<rparr>,
                            if enhanced_text \<noteq> [] \<and> enhanced_text \<noteq> text_text txt
                            then txt\<lparr>text_text := enhanced_text\<rparr> else txt)
                  else (None, de, txt))"

definition process_text_elements ::
  "externals \<Rightarrow> int \<Rightarrow> Image \<Rightarrow> float64 \<Rightarrow> float64 \<Rightarrow> int \<Rightarrow> int \<Rightarrow> pixel_box list
     \<Rightarrow> DocumentEnhancer \<Rightarrow> Document \<Rightarrow> py_error option \<times> DocumentEnhancer \<times> Document" where
  "process_text_elements ext page_num page_image pdf_w pdf_h img_w img_h non_text_bboxes de document =
     (case loop_items
             (process_text_element ext page_num page_image pdf_w pdf_h img_w img_h non_text_bboxes)
             de (texts document) of
        (r, de', ts) \<Rightarrow> (r, de', document\<lparr>texts := ts\<rparr>))"

definition process_page_elements ::
  "externals \<Rightarrow> Page \<Rightarrow> Image \<Rightarrow> int \<Rightarrow> DocumentEnhancer \<Rightarrow> Document
     \<Rightarrow> py_error option \<times> DocumentEnhancer \<times> Document" where
  "process_page_elements ext page page_image page_num de document =
     (let img_w = im_width page_image; img_h = im_height page_image;
          pdf_w = page_width page; pdf_h = page_height page
      in case collect_non_text_bboxes page_num pdf_w pdf_h img_w img_h document of
           Inl e \<Rightarrow> (Some e, de, document)
         | Inr non_text_bboxes \<Rightarrow>
             (case process_tables ext page_num page_image pdf_w pdf_h img_w img_h de document of
                (Some e, de1, document1) \<Rightarrow> (Some e, de1, document1)
              | (None, de1, document1) \<Rightarrow>
                  process_text_elements ext page_num page_image pdf_w pdf_h img_w img_h
                    non_text_bboxes de1 document1))"

definition get_page_image :: "externals \<Rightarrow> Page \<Rightarrow> Image option" where
  \<comment> \<open>\<open>_get_page_image\<close> with \<open>extract_page_image_from_data_uri\<close>\<close>
  "get_page_image ext page =
     (case page_image_uri page of
        None \<Rightarrow> None
      | Some uri \<Rightarrow> if \<not> prefix ''data:'' uri then None else decode_data_uri ext uri)"

fun process_pages ::
  "externals \<Rightarrow> DocumentEnhancer \<Rightarrow> Document \<Rightarrow> (int \<times> Page) list
     \<Rightarrow> py_error option \<times> DocumentEnhancer \<times> Document" where
  \<comment> \<open>the loop of lines 47 to 59\<close>
  "process_pages ext de document [] = (None, de, document)"
| "process_pages ext de document ((page_num, page) # rest) =
     (case get_page_image ext page of
        None \<Rightarrow> process_pages ext de document rest
      | Some page_image \<Rightarrow>
          (case process_page_elements ext page (preprocess_image ext page_image) page_num de document of
             (Some e, de', document') \<Rightarrow> (Some e, de', document')
           | (None, de', document') \<Rightarrow> process_pages ext de' document' rest))"

definition process_conversion_result ::
  "externals \<Rightarrow> DocumentEnhancer \<Rightarrow> Document option
     \<Rightarrow> py_error option \<times> DocumentEnhancer \<times> Document option" where
  "process_conversion_result ext de conversion_result =
     (case conversion_result of
        None \<Rightarrow> (None, de, None)
      | Some document \<Rightarrow>
          if \<not> (enable_formula_enhancement de \<or> enable_character_encoding_fix de)
          then (None, de, Some document)
          else (case process_pages ext de document (pages document) of
                  (r, de', document') \<Rightarrow> (r, de', Some document')))"


text \<open>
  The conditions of the specification. Initialization fails when the models are not loaded
  and cannot be: Surya is missing, or \<open>load_predictors\<close> raises. The conversions of a
  document succeed when, on every page that has an image, \<open>get_pixel_bbox\<close> returns a box
  for every picture, form item, key-value item, table and text of the page and for every
  cell of a table of the page whose text triggers the analyzer, and the crop of every
  table of the page returns.
\<close>

definition init_fails :: "externals \<Rightarrow> OCREnhancer \<Rightarrow> bool" where
  "init_fails ext ocr =
     (\<not> models_loaded ocr \<and> (\<not> surya_available ext \<or> \<not> load_predictors_ok ext))"

definition converts :: "item \<Rightarrow> float64 \<Rightarrow> float64 \<Rightarrow> int \<Rightarrow> int \<Rightarrow> bool" where
  "converts it pdf_w pdf_h img_w img_h =
     (case get_pixel_bbox it pdf_w pdf_h img_w img_h of Inl e \<Rightarrow> False | Inr box \<Rightarrow> True)"

definition table_succeeds ::
  "externals \<Rightarrow> DocumentEnhancer \<Rightarrow> int \<Rightarrow> Image \<Rightarrow> float64 \<Rightarrow> float64 \<Rightarrow> int \<Rightarrow> int
     \<Rightarrow> TableItem \<Rightarrow> bool" where
  "table_succeeds ext de page_num page_image pdf_w pdf_h img_w img_h table =
     (on_page (table_prov table) page_num \<longrightarrow>
        (case get_pixel_bbox (table_as_item table) pdf_w pdf_h img_w img_h of
           Inl e \<Rightarrow> False
         | Inr table_bbox \<Rightarrow>
             (case crop ext page_image table_bbox of
                Inl e \<Rightarrow> False
              | Inr table_image \<Rightarrow>
                  list_all
                    (\<lambda>cell. triggers (should_enhance_text ext de (cell_text cell)) \<longrightarrow>
                              converts (cell_as_item cell) pdf_w pdf_h img_w img_h)
                    (table_cells table))))"

definition page_succeeds ::
  "externals \<Rightarrow> DocumentEnhancer \<Rightarrow> Document \<Rightarrow> int \<Rightarrow> Page \<Rightarrow> bool" where
  "page_succeeds ext de document page_num page =
     (case get_page_image ext page of
        None \<Rightarrow> True
      | Some raw_image \<Rightarrow>
          let page_image = preprocess_image ext raw_image;
              img_w = im_width page_image; img_h = im_height page_image;
              pdf_w = page_width page; pdf_h = page_height page
          in list_all (\<lambda>it. on_page (item_prov it) page_num \<longrightarrow>
                              converts it pdf_w pdf_h img_w img_h)
               (non_text_items document)
             \<and> list_all (table_succeeds ext de page_num page_image pdf_w pdf_h img_w img_h)
                 (tables document)
             \<and> list_all (\<lambda>t. on_page (text_prov t) page_num \<longrightarrow>
                                converts (text_as_item t) pdf_w pdf_h img_w img_h)
                 (texts document))"

definition conversions_succeed :: "externals \<Rightarrow> DocumentEnhancer \<Rightarrow> Document \<Rightarrow> bool" where
  "conversions_succeed ext de document =
     list_all (\<lambda>(page_num, page). page_succeeds ext de document page_num page) (pages document)"

text \<open>
  What a step of the workflow keeps of the enhancer \<open>de\<close> when initialization fails: the
  failure itself and the two flags.
\<close>

definition stays_disabled :: "externals \<Rightarrow> DocumentEnhancer \<Rightarrow> DocumentEnhancer \<Rightarrow> bool" where
  "stays_disabled ext de d =
     (init_fails ext (ocr_enhancer d)
      \<and> enable_formula_enhancement d = enable_formula_enhancement de
      \<and> enable_character_encoding_fix d = enable_character_encoding_fix de)"

text \<open>
  Collaborators, a page and documents for the worked cases: without Surya; with Surya
  loaded and one fixed recognition result of two lines, the first with confidence
  \<open>3 / 4\<close> and a leading space, the second with confidence \<open>1 / 4\<close>.
\<close>

definition example_image :: Image where
  "example_image = \<lparr>im_width = 612, im_height = 792, im_content = 0\<rparr>"

definition without_surya :: externals where
  "without_surya =
     \<lparr>ucd = ucd_excerpt, surya_available = False, load_predictors_ok = False,
      recognition_predictor = (\<lambda>img box math_mode. Inl RuntimeError),
      table_rec_predictor = (\<lambda>img. Inl RuntimeError),
      decode_data_uri = (\<lambda>uri. Some example_image),
      preprocess_image = (\<lambda>img. img),
      crop = (\<lambda>img box. Inr img)\<rparr>"

definition with_surya :: externals where
  "with_surya =
     without_surya\<lparr>surya_available := True, load_predictors_ok := True,
       recognition_predictor :=
         (\<lambda>img box math_mode.
            Inr [[\<lparr>line_text = [0x20, 0x78], confidence = 3 / 4\<rparr>,
                  \<lparr>line_text = [0x79], confidence = 1 / 4\<rparr>]])\<rparr>"

definition example_page :: Page where
  "example_page =
     \<lparr>page_width = Fin 612, page_height = Fin 792,
      page_image_uri = Some ''data:image/png;base64,''\<rparr>"

definition page_box :: BoundingBox where
  \<comment> \<open>the whole example page, bottom-left origin\<close>
  "page_box =
     \<lparr>bb_l = Fin 0, bb_t = Fin 792, bb_r = Fin 612, bb_b = Fin 0,
      bb_coord_origin = OriginEnum BOTTOMLEFT\<rparr>"

definition example_prov :: "ProvenanceItem list option" where
  "example_prov = Some [\<lparr>page_no = 1, prov_bbox = Some page_box, prov_coord_origin = None\<rparr>]"

definition cell_without_box :: TableCell where
  \<comment> \<open>a cell with the text \<open>x2\<close> and no bounding box\<close>
  "cell_without_box =
     \<lparr>cell_text = [0x78, 0x32], cell_bbox = None, start_row_offset_idx = 0,
      start_col_offset_idx = 0\<rparr>"

definition table_document :: Document where
  "table_document =
     \<lparr>pages = [(1, example_page)], texts = [],
      tables = [\<lparr>table_prov = example_prov, table_cells = [cell_without_box]\<rparr>],
      pictures = [], form_items = [], key_value_items = []\<rparr>"

definition text_document :: Document where
  "text_document =
     \<lparr>pages = [(1, example_page)],
      texts = [\<lparr>text_prov = example_prov, text_text = [0x78, 0x32]\<rparr>],
      tables = [], pictures = [], form_items = [], key_value_items = []\<rparr>"

definition picture_document :: Document where
  \<comment> \<open>the text document with a picture that covers the page\<close>
  "picture_document = text_document\<lparr>pictures := [\<lparr>item_prov = example_prov, item_bbox = None\<rparr>]\<rparr>"

definition enhancer :: "bool \<Rightarrow> bool \<Rightarrow> DocumentEnhancer" where
  \<comment> \<open>\<open>DocumentEnhancer(enable_formula_enhancement, enable_character_encoding_fix)\<close>\<close>
  "enhancer enable_formula enable_encoding =
     \<lparr>enable_formula_enhancement = enable_formula,
      enable_character_encoding_fix = enable_encoding,
      ocr_enhancer = \<lparr>models_loaded = False, models_loading = False\<rparr>\<rparr>"

section \<open>Rounding\<close>

lemma rhe_of_int: "round_half_even (of_int n) = n"
  by (simp add: round_half_even_def)

lemma rhe_err: "\<bar>of_int (round_half_even x) - x\<bar> \<le> 1/2"
  unfolding round_half_even_def Let_def
  by (auto simp: abs_if not_less) linarith+

lemma rhe_le: "x \<le> of_int n \<Longrightarrow> round_half_even x \<le> n"
proof -
  assume h: "x \<le> of_int n"
  have e: "\<bar>of_int (round_half_even x) - x\<bar> \<le> 1/2" by (rule rhe_err)
  show ?thesis
  proof (cases "x = of_int n")
    case True then show ?thesis by (simp add: rhe_of_int)
  next
    case False
    with h have lt: "x < of_int n" by simp
    then have fl: "\<lfloor>x\<rfloor> < n" by (simp add: floor_less_iff)
    show ?thesis
    proof (cases "\<lfloor>x\<rfloor> + 1 < n")
      case True
      have "round_half_even x \<le> \<lfloor>x\<rfloor> + 1" unfolding round_half_even_def Let_def by auto
      with True show ?thesis by linarith
    next
      case False
      with fl have "\<lfloor>x\<rfloor> + 1 = n" by linarith
      moreover have "round_half_even x \<le> \<lfloor>x\<rfloor> + 1" unfolding round_half_even_def Let_def by auto
      ultimately show ?thesis by linarith
    qed
  qed
qed

lemma rhe_ge: "of_int n \<le> x \<Longrightarrow> n \<le> round_half_even x"
proof -
  assume h: "of_int n \<le> x"
  then have "n \<le> \<lfloor>x\<rfloor>" by (simp add: le_floor_iff)
  moreover have "\<lfloor>x\<rfloor> \<le> round_half_even x" unfolding round_half_even_def Let_def by auto
  ultimately show ?thesis by linarith
qed

lemma rnd_1: "rnd 1 = 1" by code_simp
lemma rnd_quarter: "rnd (1/4) = 1/4" by code_simp

lemma rnd_nonneg: "0 \<le> q \<Longrightarrow> 0 \<le> rnd q"
proof -
  assume h: "0 \<le> q"
  show ?thesis
  proof (cases "q = 0")
    case True then show ?thesis by (simp add: rnd_def)
  next
    case False
    define e where "e = max (ilog2 \<bar>q\<bar> - 52) (- 1074)"
    have p: "(0::rat) < 2 powi e" by simp
    have "of_int 0 \<le> q / 2 powi e" using h p by simp
    then have "0 \<le> round_half_even (q / 2 powi e)" by (rule rhe_ge)
    then show ?thesis using False p unfolding rnd_def Let_def e_def[symmetric] by simp
  qed
qed

lemma ilog2_le0: "0 < q \<Longrightarrow> q \<le> 1 \<Longrightarrow> ilog2 q \<le> 0"
proof -
  assume h: "0 < q" "q \<le> 1"
  have b1: "bitlen 1 = 1" by code_simp
  show ?thesis
  proof (cases "q = 1")
    case True then show ?thesis by (simp add: ilog2_def b1)
  next
    case False
    with h have "q < 1" by simp
    then show ?thesis by (simp add: ilog2_def bitlen_nonneg)
  qed
qed

lemma rnd_le_1: "0 \<le> q \<Longrightarrow> q \<le> 1 \<Longrightarrow> rnd q \<le> 1"
proof -
  assume h: "0 \<le> q" "q \<le> 1"
  show ?thesis
  proof (cases "q = 0")
    case True then show ?thesis by (simp add: rnd_def)
  next
    case False
    define e where "e = max (ilog2 \<bar>q\<bar> - 52) (- 1074)"
    have "ilog2 \<bar>q\<bar> \<le> 0" using ilog2_le0[of q] h False by simp
    then have e0: "e \<le> 0" unfolding e_def by simp
    have p: "(0::rat) < 2 powi e" by simp
    have pe: "(2::rat) powi e = 1 / of_int (2 ^ nat (- e))"
      using e0 by (simp add: power_int_def field_simps)
    have "q / 2 powi e \<le> of_int (2 ^ nat (- e))"
      using h unfolding pe by (simp add: mult_left_le_one_le)
    then have "round_half_even (q / 2 powi e) \<le> 2 ^ nat (- e)" by (rule rhe_le)
    then have "rat_of_int (round_half_even (q / 2 powi e)) \<le> of_int (2 ^ nat (- e))"
      by (simp only: of_int_le_iff)
    then have "rat_of_int (round_half_even (q / 2 powi e)) * 2 powi e \<le> 1"
      unfolding pe by (simp add: field_simps)
    then show ?thesis using False unfolding rnd_def Let_def e_def[symmetric] by simp
  qed
qed

lemma ilog2_bounds:
  assumes "0 < q"
  shows "2 powi (ilog2 q) \<le> q" and "q < 2 powi (ilog2 q + 1)"
proof -
  have "2 powi (ilog2 q) \<le> q \<and> q < 2 powi (ilog2 q + 1)"
  proof (cases "1 \<le> q")
    case True
    define n where "n = \<lfloor>q\<rfloor>"
    have n1: "1 \<le> n" using True by (simp add: n_def le_floor_iff)
    then have npos: "0 < n" by simp
    define k where "k = bitlen n - 1"
    have k0: "0 \<le> k" using bitlen_ge_iff_power[of 1 n] n1 by (simp add: k_def)
    from bitlen_bounds[OF npos] have b: "2 ^ nat k \<le> n" "n < 2 ^ nat (k + 1)"
      by (simp_all add: k_def)
    have il: "ilog2 q = k" using True by (simp add: ilog2_def n_def k_def)
    have "rat_of_int (2 ^ nat k) \<le> of_int n" using b(1) by (simp only: of_int_le_iff)
    also have "\<dots> \<le> q" by (simp add: n_def)
    finally have lo: "2 powi k \<le> q" using k0 by (simp add: power_int_def)
    have "n + 1 \<le> 2 ^ nat (k + 1)" using b(2) by simp
    then have "rat_of_int (n + 1) \<le> of_int (2 ^ nat (k + 1))" by (simp only: of_int_le_iff)
    moreover have "q < of_int (n + 1)" unfolding n_def by linarith
    ultimately have "q < of_int (2 ^ nat (k + 1))" by linarith
    then have hi: "q < 2 powi (k + 1)" using k0 by (simp add: power_int_def)
    show ?thesis using lo hi il by simp
  next
    case False
    then have q1: "q < 1" by simp
    define x where "x = 1 / q"
    have x1: "1 < x" using assms q1 by (simp add: x_def)
    define m where "m = \<lceil>x\<rceil> - 1"
    have m1: "1 \<le> m" using x1 unfolding m_def by linarith
    then have mpos: "0 < m" by simp
    define k where "k = bitlen m"
    have k1: "1 \<le> k" using bitlen_ge_iff_power[of 1 m] m1 by (simp add: k_def)
    from bitlen_bounds[OF mpos] have b: "2 ^ nat (k - 1) \<le> m" "m < 2 ^ nat k"
      by (simp_all add: k_def)
    have il: "ilog2 q = - k" using q1 by (simp add: ilog2_def m_def k_def x_def)
    have xm: "of_int m < x" "x \<le> of_int (m + 1)" unfolding m_def by linarith+
    have "m + 1 \<le> 2 ^ nat k" using b(2) by simp
    then have "rat_of_int (m + 1) \<le> of_int (2 ^ nat k)" by (simp only: of_int_le_iff)
    moreover have "(2::rat) ^ nat k = rat_of_int (2 ^ nat k)" by simp
    ultimately have "x \<le> 2 ^ nat k" using xm(2) by linarith
    then have "1 / q \<le> 2 ^ nat k" by (simp add: x_def)
    then have "1 \<le> 2 ^ nat k * q" using assms by (simp add: field_simps)
    then have "1 / 2 ^ nat k \<le> q" by (simp add: field_simps)
    then have lo: "2 powi (- k) \<le> q" using k1 by (simp add: power_int_def field_simps)
    have "rat_of_int (2 ^ nat (k - 1)) \<le> of_int m" using b(1) by (simp only: of_int_le_iff)
    moreover have "(2::rat) ^ nat (k - 1) = rat_of_int (2 ^ nat (k - 1))" by simp
    ultimately have "2 ^ nat (k - 1) < x" using xm(1) by linarith
    then have "2 ^ nat (k - 1) < 1 / q" by (simp add: x_def)
    then have "q * 2 ^ nat (k - 1) < 1" using assms by (simp add: field_simps)
    then have "q < 1 / 2 ^ nat (k - 1)" by (simp add: field_simps)
    moreover have "(2::rat) powi (- k + 1) = 1 / 2 ^ nat (k - 1)"
      using k1 by (simp add: power_int_def field_simps)
    ultimately have hi: "q < 2 powi (- k + 1)" by simp
    show ?thesis using lo hi il by simp
  qed
  then show "2 powi (ilog2 q) \<le> q" and "q < 2 powi (ilog2 q + 1)" by simp_all
qed

lemma ilog2_ge: "0 < q \<Longrightarrow> 2 powi k \<le> q \<Longrightarrow> k \<le> ilog2 q"
proof -
  assume h: "0 < q" "2 powi k \<le> q"
  have "(2::rat) powi k < 2 powi (ilog2 q + 1)" using h(2) ilog2_bounds(2)[OF h(1)] by simp
  then have "k < ilog2 q + 1"
    by (metis not_less power_int_increasing one_le_numeral)
  then show ?thesis by simp
qed

lemma ilog2_less: "0 < q \<Longrightarrow> q < 2 powi k \<Longrightarrow> ilog2 q < k"
proof -
  assume h: "0 < q" "q < 2 powi k"
  have "(2::rat) powi (ilog2 q) < 2 powi k" using h(2) ilog2_bounds(1)[OF h(1)] by simp
  then show ?thesis
    by (metis not_less power_int_increasing one_le_numeral)
qed

lemma rnd_rel_err:
  assumes "2 powi (- 1022) \<le> q"
  shows "\<bar>rnd q - q\<bar> \<le> q * 2 powi (- 53)"
proof -
  have qpos: "0 < q" using assms by (rule less_le_trans[rotated]) simp
  define e where "e = ilog2 q - 52"
  have "- 1022 \<le> ilog2 q" using ilog2_ge[OF qpos assms] .
  then have emax: "max (ilog2 \<bar>q\<bar> - 52) (- 1074) = e" using qpos by (simp add: e_def)
  have p: "(0::rat) < 2 powi e" by simp
  define y where "y = q / 2 powi e"
  have r: "rnd q = of_int (round_half_even y) * 2 powi e"
    using qpos emax by (simp add: rnd_def y_def Let_def)
  have qy: "q = y * 2 powi e" using p by (simp add: y_def)
  have "rnd q - q = (of_int (round_half_even y) - y) * 2 powi e"
  proof -
    have "rnd q - q = of_int (round_half_even y) * 2 powi e - y * 2 powi e"
      using r qy by simp
    then show ?thesis by (simp add: algebra_simps)
  qed
  then have "\<bar>rnd q - q\<bar> = \<bar>of_int (round_half_even y) - y\<bar> * 2 powi e"
    using p by (simp add: abs_mult)
  also have "\<dots> \<le> (1 / 2) * 2 powi e"
    using rhe_err[of y] p by (intro mult_right_mono) simp_all
  also have "\<dots> = 2 powi (ilog2 q) * 2 powi (- 53)"
    unfolding e_def by (simp add: power_int_diff power_int_minus)
  also have "\<dots> \<le> q * 2 powi (- 53)"
    using ilog2_bounds(1)[OF qpos] by (intro mult_right_mono) simp_all
  finally show ?thesis .
qed

lemma rnd_of_int:
  assumes "\<bar>n\<bar> < 2 ^ 53"
  shows "rnd (of_int n) = of_int n"
proof (cases "n = 0")
  case True then show ?thesis by (simp add: rnd_def)
next
  case False
  define q where "q = \<bar>rat_of_int n\<bar>"
  have "1 \<le> \<bar>n\<bar>" using False by simp
  then have "rat_of_int 1 \<le> of_int \<bar>n\<bar>" by (simp only: of_int_le_iff)
  then have q1: "1 \<le> q" unfolding q_def by simp
  then have qpos: "0 < q" by simp
  have "q < 2 ^ 53" using assms unfolding q_def
    by (metis of_int_abs of_int_less_numeral_power_cancel_iff)
  then have "q < 2 powi 53" by simp
  then have hi: "ilog2 q < 53" using ilog2_less[OF qpos] by blast
  have "(2::rat) powi 0 \<le> q" using q1 by simp
  then have lo: "0 \<le> ilog2 q" using ilog2_ge[OF qpos] by blast
  define e where "e = max (ilog2 q - 52) (- 1074)"
  have e0: "e \<le> 0" and e1: "- 52 \<le> e" using hi lo by (simp_all add: e_def)
  define k where "k = nat (- e)"
  have pe: "(2::rat) powi e = 1 / 2 ^ k"
    using e0 by (simp add: power_int_def k_def field_simps)
  have "rat_of_int n / 2 powi e = of_int (n * 2 ^ k)" by (simp add: pe)
  then have "round_half_even (rat_of_int n / 2 powi e) = n * 2 ^ k"
    by (simp only: rhe_of_int)
  then have "of_int (round_half_even (rat_of_int n / 2 powi e)) * 2 powi e = rat_of_int n"
    by (simp add: pe)
  then show ?thesis using False unfolding rnd_def Let_def q_def[symmetric] e_def[symmetric]
    by simp
qed

lemma rnd_ge_1:
  assumes "1 \<le> q"
  shows "1 \<le> rnd q"
proof -
  have qpos: "0 < q" using assms by simp
  have "(2::rat) powi 0 \<le> q" using assms by simp
  then have lo: "0 \<le> ilog2 q" using ilog2_ge[OF qpos] by blast
  define e where "e = ilog2 q - 52"
  have emax: "max (ilog2 \<bar>q\<bar> - 52) (- 1074) = e" using qpos lo by (simp add: e_def)
  have p: "(0::rat) < 2 powi e" by simp
  define y where "y = q / 2 powi e"
  have r: "rnd q = of_int (round_half_even y) * 2 powi e"
    using qpos emax by (simp add: rnd_def y_def Let_def)
  show ?thesis
  proof (cases "e \<le> 0")
    case True
    define k where "k = nat (- e)"
    have pe: "(2::rat) powi e = 1 / 2 ^ k"
      using True by (simp add: power_int_def k_def field_simps)
    have "(1::rat) * 2 ^ k \<le> q * 2 ^ k" using assms by (intro mult_right_mono) simp_all
    then have "of_int (2 ^ k) \<le> y" unfolding y_def pe by simp
    then have "2 ^ k \<le> round_half_even y" by (rule rhe_ge)
    then have "rat_of_int (2 ^ k) \<le> of_int (round_half_even y)" by (simp only: of_int_le_iff)
    then show ?thesis unfolding r pe by (simp add: field_simps)
  next
    case False
    then have epos: "0 < e" by simp
    have "2 powi (ilog2 q) \<le> q" using ilog2_bounds(1)[OF qpos] .
    moreover have "(2::rat) powi (ilog2 q) = 2 powi e * 2 powi 52"
      unfolding e_def by (simp add: power_int_diff)
    ultimately have "2 powi e * 2 powi 52 \<le> q" by simp
    then have "2 powi 52 \<le> y" using p unfolding y_def by (simp add: field_simps)
    then have "of_int 1 \<le> y" by simp
    then have "1 \<le> round_half_even y" by (rule rhe_ge)
    then have "(1::rat) \<le> of_int (round_half_even y)" by simp
    moreover have "(1::rat) \<le> 2 powi e" using epos by simp
    ultimately have "1 * 1 \<le> rat_of_int (round_half_even y) * 2 powi e"
      by (intro mult_mono) simp_all
    then show ?thesis unfolding r by simp
  qed
qed

lemma ilog2_eqI:
  assumes "2 powi k \<le> q" and "q < 2 powi (k + 1)"
  shows "ilog2 q = k"
proof -
  have qpos: "0 < q" using assms(1) by (rule less_le_trans[rotated]) simp
  have "k \<le> ilog2 q" using ilog2_ge[OF qpos assms(1)] .
  moreover have "ilog2 q < k + 1" using ilog2_less[OF qpos assms(2)] .
  ultimately show ?thesis by simp
qed

lemma rnd_eval:
  assumes "2 powi k \<le> \<bar>q\<bar>" and "\<bar>q\<bar> < 2 powi (k + 1)" and "- 1022 \<le> k"
    and "round_half_even (q / 2 powi (k - 52)) = m"
  shows "rnd q = of_int m * 2 powi (k - 52)"
proof -
  have "0 < \<bar>q\<bar>" using assms(1) by (rule less_le_trans[rotated]) simp
  then have nz: "q \<noteq> 0" by simp
  have "ilog2 \<bar>q\<bar> = k" using assms(1,2) by (rule ilog2_eqI)
  then have "max (ilog2 \<bar>q\<bar> - 52) (- 1074) = k - 52" using assms(3) by simp
  then show ?thesis using nz assms(4) by (simp add: rnd_def Let_def)
qed

lemma rhe_near: "\<bar>x - of_int m\<bar> < 1 / 2 \<Longrightarrow> round_half_even x = m"
proof -
  assume h: "\<bar>x - of_int m\<bar> < 1 / 2"
  have "\<bar>rat_of_int (round_half_even x) - x\<bar> \<le> 1 / 2" by (rule rhe_err)
  with h have "\<bar>rat_of_int (round_half_even x) - of_int m\<bar> < 1" by linarith
  then have "\<bar>rat_of_int (round_half_even x - m)\<bar> < 1" by simp
  then have "\<bar>round_half_even x - m\<bar> < 1"
    by (metis of_int_abs of_int_less_1_iff)
  then show ?thesis by simp
qed

lemma rnd_near:
  assumes "2 powi k \<le> \<bar>q\<bar>" and "\<bar>q\<bar> < 2 powi (k + 1)" and "- 1022 \<le> k"
    and "\<bar>q / 2 powi (k - 52) - of_int m\<bar> < 1 / 2"
  shows "rnd q = of_int m * 2 powi (k - 52)"
  using assms(1-3) rhe_near[OF assms(4)] by (rule rnd_eval)

lemma py_trunc_eqI: "0 \<le> x \<Longrightarrow> of_int z \<le> x \<Longrightarrow> x < of_int z + 1 \<Longrightarrow> py_trunc x = z"
  by (simp add: py_trunc_def floor_unique)

lemma rnd_abs_le_powi:
  assumes "\<bar>q\<bar> \<le> 2 powi k" and "- 1074 \<le> k"
  shows "\<bar>rnd q\<bar> \<le> 2 powi k"
proof (cases "q = 0")
  case True
  then show ?thesis by (simp add: rnd_def)
next
  case False
  then have qpos: "0 < \<bar>q\<bar>" by simp
  define e where "e = max (ilog2 \<bar>q\<bar> - 52) (- 1074)"
  have "(2::rat) powi k < 2 powi (k + 1)" by (intro power_int_strict_increasing) simp_all
  with assms(1) have "\<bar>q\<bar> < 2 powi (k + 1)" by linarith
  then have "ilog2 \<bar>q\<bar> < k + 1" using ilog2_less[OF qpos] by blast
  then have "ilog2 \<bar>q\<bar> \<le> k" by simp
  then have ek: "e \<le> k" using assms(2) by (simp add: e_def)
  define n :: int where "n = 2 ^ nat (k - e)"
  have p: "(0::rat) < 2 powi e" by simp
  have nk: "rat_of_int n * 2 powi e = 2 powi k"
  proof -
    have "rat_of_int n = 2 powi (k - e)" using ek by (simp add: n_def power_int_def)
    then show ?thesis by (simp add: power_int_diff)
  qed
  define y where "y = q / 2 powi e"
  have qy: "q = y * 2 powi e" using p by (simp add: y_def)
  have "\<bar>y\<bar> * 2 powi e \<le> rat_of_int n * 2 powi e"
    using assms(1) p unfolding nk qy by (simp add: abs_mult)
  then have yn: "\<bar>y\<bar> \<le> rat_of_int n" using p by simp
  then have "y \<le> of_int n" "of_int (- n) \<le> y" by (simp_all add: abs_le_iff)
  then have "round_half_even y \<le> n" "- n \<le> round_half_even y"
    using rhe_le[of y n] rhe_ge[of "- n" y] by simp_all
  then have "\<bar>round_half_even y\<bar> \<le> n" by simp
  then have "\<bar>rat_of_int (round_half_even y)\<bar> \<le> rat_of_int n"
    by (metis of_int_abs of_int_le_iff)
  then have "\<bar>rat_of_int (round_half_even y)\<bar> * 2 powi e \<le> rat_of_int n * 2 powi e"
    using p by (intro mult_right_mono) simp_all
  then have "\<bar>rat_of_int (round_half_even y) * 2 powi e\<bar> \<le> 2 powi k"
    using p unfolding nk by (simp add: abs_mult)
  then show ?thesis using False unfolding rnd_def Let_def e_def[symmetric] y_def by simp
qed

lemma rnd_abs_le: "\<bar>q\<bar> \<le> 2 ^ n \<Longrightarrow> \<bar>rnd q\<bar> \<le> 2 ^ n"
  using rnd_abs_le_powi[of q "int n"] by simp

lemma max_float_ge: "(2::rat) ^ 1023 \<le> max_float"
proof -
  have "(2::rat) ^ 1023 = 2 ^ 52 * 2 ^ 971" by (simp only: power_add[symmetric]) simp
  also have "\<dots> \<le> (2 ^ 53 - 1) * 2 ^ 971" by (intro mult_right_mono) simp_all
  finally show ?thesis by (simp only: max_float_def)
qed

lemma max_float_pos: "0 < max_float"
  using max_float_ge by (rule less_le_trans[rotated]) simp

lemma max_float_ge_1: "1 \<le> max_float"
  using max_float_ge by (rule order_trans[rotated]) simp

lemma round64_fin:
  assumes "\<bar>q\<bar> \<le> 2 ^ n" and "n \<le> 1023"
  shows "round64 q = Fin (rnd q)"
proof -
  have "\<bar>rnd q\<bar> \<le> 2 ^ n" using assms(1) by (rule rnd_abs_le)
  also have "(2::rat) ^ n \<le> 2 ^ 1023" using assms(2) by (intro power_increasing) simp_all
  finally have "\<bar>rnd q\<bar> \<le> max_float" using max_float_ge by linarith
  then show ?thesis by (simp add: round64_def Let_def abs_le_iff)
qed

lemma float_of_int_fin:
  assumes "\<bar>rat_of_int i\<bar> \<le> 2 ^ n" and "n \<le> 1023"
  shows "float_of_int i = Inr (Fin (rnd (of_int i)))"
proof -
  have "\<bar>rnd (rat_of_int i)\<bar> \<le> 2 ^ n" using assms(1) by (rule rnd_abs_le)
  also have "(2::rat) ^ n \<le> 2 ^ 1023" using assms(2) by (intro power_increasing) simp_all
  finally have "\<bar>rnd (rat_of_int i)\<bar> \<le> max_float" using max_float_ge by linarith
  then show ?thesis by (simp add: float_of_int_def Let_def)
qed

lemma rnd_err:
  "\<bar>rnd q - q\<bar> \<le> \<bar>q\<bar> * 2 powi (- 53) + 2 powi (- 1075)"
proof (cases "q = 0")
  case True
  then show ?thesis by (simp add: rnd_def)
next
  case False
  then have qpos: "0 < \<bar>q\<bar>" by simp
  define e where "e = max (ilog2 \<bar>q\<bar> - 52) (- 1074)"
  have p: "(0::rat) < 2 powi e" by simp
  define y where "y = q / 2 powi e"
  have r: "rnd q = of_int (round_half_even y) * 2 powi e"
    using False by (simp add: rnd_def y_def Let_def e_def)
  have qy: "q = y * 2 powi e" using p by (simp add: y_def)
  have "rnd q - q = (of_int (round_half_even y) - y) * 2 powi e"
  proof -
    have "rnd q - q = of_int (round_half_even y) * 2 powi e - y * 2 powi e"
      using r qy by simp
    then show ?thesis by (simp add: algebra_simps)
  qed
  then have "\<bar>rnd q - q\<bar> = \<bar>of_int (round_half_even y) - y\<bar> * 2 powi e"
    using p by (simp add: abs_mult)
  also have "\<dots> \<le> (1 / 2) * 2 powi e"
    using rhe_err[of y] p by (intro mult_right_mono) simp_all
  finally have h: "\<bar>rnd q - q\<bar> \<le> (1 / 2) * 2 powi e" .
  show ?thesis
  proof (cases "- 1074 \<le> ilog2 \<bar>q\<bar> - 52")
    case True
    then have "e = ilog2 \<bar>q\<bar> - 52" by (simp add: e_def)
    then have "(1 / 2) * (2::rat) powi e = 2 powi (ilog2 \<bar>q\<bar>) * 2 powi (- 53)"
      by (simp add: power_int_diff power_int_minus)
    also have "\<dots> \<le> \<bar>q\<bar> * 2 powi (- 53)"
      using ilog2_bounds(1)[OF qpos] by (intro mult_right_mono) simp_all
    finally have "(1 / 2) * (2::rat) powi e \<le> \<bar>q\<bar> * 2 powi (- 53)" .
    moreover have "(0::rat) \<le> 2 powi (- 1075)" by simp
    ultimately show ?thesis using h by linarith
  next
    case False
    then have "e = - 1074" by (simp add: e_def)
    then have "(1 / 2) * (2::rat) powi e = 2 powi (- 1075)"
      by (simp add: power_int_minus)
    moreover have "0 \<le> \<bar>q\<bar> * 2 powi (- 53)" by simp
    ultimately show ?thesis using h by linarith
  qed
qed

section \<open>The overlap ratio\<close>

lemma ratio_unfold:
  "calculate_overlap_ratio A B =
     (if box_area A > 0 then rnd (of_int (intersection_area A B) / of_int (box_area A)) else 0)"
  by (cases A; cases B) (simp add: calculate_overlap_ratio_def box_area_def intersection_area_def Let_def)

lemma inter_nonneg: "0 \<le> intersection_area A B"
  by (cases A; cases B) (simp add: intersection_area_def)

lemma inter_zero_if_not_intersect: "\<not> boxes_intersect A B \<Longrightarrow> intersection_area A B = 0"
  by (cases A; cases B) (auto simp: intersection_area_def boxes_intersect_def max_def)

lemma inter_le_area: "0 < box_area A \<Longrightarrow> intersection_area A B \<le> box_area A"
proof (cases A; cases B)
  fix ax1 ay1 ax2 ay2 bx1 by1 bx2 by2
  assume A: "A = (ax1, ay1, ax2, ay2)" and B: "B = (bx1, by1, bx2, by2)"
  assume pos: "0 < box_area A"
  then have p: "0 < (ax2 - ax1) * (ay2 - ay1)" by (simp add: A box_area_def)
  let ?w = "max 0 (min ax2 bx2 - max ax1 bx1)" and ?h = "max 0 (min ay2 by2 - max ay1 by1)"
  from p consider "0 < ax2 - ax1" "0 < ay2 - ay1" | "ax2 - ax1 < 0" "ay2 - ay1 < 0"
    by (auto simp: zero_less_mult_iff)
  then show ?thesis
  proof cases
    case 1
    have "?w \<le> ax2 - ax1" "?h \<le> ay2 - ay1" "0 \<le> ?w" "0 \<le> ?h" using 1 by auto
    then have "?w * ?h \<le> (ax2 - ax1) * (ay2 - ay1)" using 1 by (intro mult_mono) auto
    then show ?thesis by (simp add: A B box_area_def intersection_area_def)
  next
    case 2
    then have "?w = 0" by auto
    then show ?thesis using p by (simp add: A B box_area_def intersection_area_def)
  qed
qed

lemma inter_zero_if_area_neg: "box_area A < 0 \<Longrightarrow> intersection_area A B = 0"
proof (cases A; cases B)
  fix ax1 ay1 ax2 ay2 bx1 by1 bx2 by2
  assume A: "A = (ax1, ay1, ax2, ay2)" and B: "B = (bx1, by1, bx2, by2)"
  assume "box_area A < 0"
  then have "(ax2 - ax1) * (ay2 - ay1) < 0" by (simp add: A box_area_def)
  then consider "ax2 - ax1 < 0" | "ay2 - ay1 < 0" by (auto simp: mult_less_0_iff)
  then show ?thesis
    by cases (auto simp: A B intersection_area_def)
qed

lemma inter_self: "well_oriented A \<Longrightarrow> intersection_area A A = box_area A"
  by (cases A) (simp add: well_oriented_def intersection_area_def box_area_def)

lemma area_pos_if_oriented: "well_oriented A \<Longrightarrow> 0 < box_area A"
  by (cases A) (simp add: well_oriented_def box_area_def)

lemma ratio_range: "0 \<le> calculate_overlap_ratio A B \<and> calculate_overlap_ratio A B \<le> 1"
proof (cases "0 < box_area A")
  case True
  let ?q = "rat_of_int (intersection_area A B) / of_int (box_area A)"
  have "0 \<le> ?q" using True inter_nonneg[of A B] by simp
  moreover have "?q \<le> 1" using True inter_le_area[OF True, of B] by simp
  ultimately show ?thesis using True by (simp add: ratio_unfold rnd_nonneg rnd_le_1)
next
  case False
  then show ?thesis by (simp add: ratio_unfold)
qed

lemma rnd_0: "rnd 0 = 0" by (simp add: rnd_def)

text \<open>
  C2 (amended). \<open>calculate_overlap_ratio A B\<close> is the intersection area divided by the area
  of \<open>A\<close> (Python's division of two ints) whenever that area is not zero; it is \<open>0\<close> when the
  area of \<open>A\<close> is zero or the boxes do not intersect; it is \<open>1\<close> on \<open>(A, A)\<close> for every box
  \<open>A\<close> with \<open>x1 < x2\<close> and \<open>y1 < y2\<close>; it lies in \<open>[0, 1]\<close>; and it is not symmetric.
\<close>

theorem calculate_overlap_ratio_formula:
  "(box_area A \<noteq> 0 \<longrightarrow>
      Inr (calculate_overlap_ratio A B) = int_truediv (intersection_area A B) (box_area A))
   \<and> (box_area A = 0 \<or> \<not> boxes_intersect A B \<longrightarrow> calculate_overlap_ratio A B = 0)
   \<and> (well_oriented A \<longrightarrow> calculate_overlap_ratio A A = 1)
   \<and> 0 \<le> calculate_overlap_ratio A B \<and> calculate_overlap_ratio A B \<le> 1
   \<and> calculate_overlap_ratio (0, 0, 10, 10) (0, 0, 5, 5)
       \<noteq> calculate_overlap_ratio (0, 0, 5, 5) (0, 0, 10, 10)"
proof (intro conjI impI)
  assume nz: "box_area A \<noteq> 0"
  show "Inr (calculate_overlap_ratio A B) = int_truediv (intersection_area A B) (box_area A)"
  proof (cases "0 < box_area A")
    case True
    have "calculate_overlap_ratio A B \<le> max_float"
      using ratio_range[of A B] max_float_ge_1 by linarith
    moreover have "0 \<le> calculate_overlap_ratio A B" using ratio_range by blast
    ultimately show ?thesis using True by (simp add: ratio_unfold int_truediv_def Let_def)
  next
    case False
    with nz have "box_area A < 0" by simp
    then show ?thesis
      using inter_zero_if_area_neg[of A B] max_float_pos
      by (simp add: ratio_unfold int_truediv_def rnd_0)
  qed
next
  assume "box_area A = 0 \<or> \<not> boxes_intersect A B"
  then show "calculate_overlap_ratio A B = 0"
    using inter_zero_if_not_intersect[of A B] by (auto simp: ratio_unfold rnd_0)
next
  assume "well_oriented A"
  then show "calculate_overlap_ratio A A = 1"
    using inter_self[of A] area_pos_if_oriented[of A] by (simp add: ratio_unfold rnd_1)
next
  show "0 \<le> calculate_overlap_ratio A B" using ratio_range by blast
  show "calculate_overlap_ratio A B \<le> 1" using ratio_range by blast
  have "calculate_overlap_ratio (0, 0, 10, 10) (0, 0, 5, 5) = 1 / 4"
    by (simp add: ratio_unfold box_area_def intersection_area_def rnd_quarter)
  moreover have "calculate_overlap_ratio (0, 0, 5, 5) (0, 0, 10, 10) = 1"
    by (simp add: ratio_unfold box_area_def intersection_area_def rnd_1)
  ultimately show "calculate_overlap_ratio (0, 0, 10, 10) (0, 0, 5, 5)
       \<noteq> calculate_overlap_ratio (0, 0, 5, 5) (0, 0, 10, 10)" by simp
qed

text \<open>
  C2 as stated fails for a box inverted on both axes: its area \<open>(x2 - x1) * (y2 - y1)\<close> is
  positive, yet its ratio against itself is \<open>0\<close>.
\<close>

theorem calculate_overlap_ratio_inverted_self:
  "0 < box_area (10, 10, 0, 0) \<and> calculate_overlap_ratio (10, 10, 0, 0) (10, 10, 0, 0) \<noteq> 1"
  by (simp add: calculate_overlap_ratio_def box_area_def rnd_0)

theorem calculate_overlap_ratio_formula_witness:
  "box_area (0, 0, 10, 10) \<noteq> 0 \<and> well_oriented (0, 0, 10, 10)
   \<and> \<not> boxes_intersect (0, 0, 10, 10) (20, 20, 30, 30)
   \<and> Inr (calculate_overlap_ratio (0, 0, 10, 10) (0, 0, 5, 5)) = int_truediv 25 100
   \<and> calculate_overlap_ratio (0, 0, 10, 10) (20, 20, 30, 30) = 0
   \<and> calculate_overlap_ratio (0, 0, 10, 10) (0, 0, 10, 10) = 1"
  using calculate_overlap_ratio_formula [of "(0, 0, 10, 10)" "(0, 0, 5, 5)"]
        calculate_overlap_ratio_formula [of "(0, 0, 10, 10)" "(20, 20, 30, 30)"]
  by (simp add: box_area_def well_oriented_def boxes_intersect_def intersection_area_def)

section \<open>Coordinate conversion\<close>

lemma abs_div_le:
  assumes "\<bar>v\<bar> \<le> 2 ^ m" and "1 / 2 ^ n \<le> \<bar>p\<bar>"
  shows "\<bar>v / p\<bar> \<le> (2::rat) ^ (m + n)"
proof -
  have ppos: "0 < \<bar>p\<bar>" using assms(2) by (rule less_le_trans[rotated]) simp
  have "1 \<le> \<bar>p\<bar> * 2 ^ n" using assms(2) by (simp add: field_simps)
  then have "\<bar>v\<bar> * 1 \<le> 2 ^ m * (\<bar>p\<bar> * 2 ^ n)" using assms(1) by (intro mult_mono) simp_all
  then have "\<bar>v\<bar> \<le> 2 ^ (m + n) * \<bar>p\<bar>" by (simp add: power_add mult_ac)
  then have "\<bar>v\<bar> / \<bar>p\<bar> \<le> 2 ^ (m + n)" using ppos by (simp add: field_simps)
  then show ?thesis by simp
qed

lemma abs_mult_le:
  assumes "\<bar>a\<bar> \<le> 2 ^ m" and "\<bar>b\<bar> \<le> 2 ^ n"
  shows "\<bar>a * b\<bar> \<le> (2::rat) ^ (m + n)"
proof -
  have "\<bar>a\<bar> * \<bar>b\<bar> \<le> 2 ^ m * 2 ^ n" using assms by (intro mult_mono) simp_all
  then show ?thesis by (simp add: abs_mult power_add)
qed

lemma abs_add_le:
  assumes "\<bar>a\<bar> \<le> 2 ^ n" and "\<bar>b\<bar> \<le> 2 ^ n"
  shows "\<bar>a + b\<bar> \<le> (2::rat) ^ Suc n" and "\<bar>a - b\<bar> \<le> (2::rat) ^ Suc n"
  using assms by (simp_all add: abs_le_iff)

lemma abs_le_mono: "\<bar>a\<bar> \<le> 2 ^ m \<Longrightarrow> m \<le> n \<Longrightarrow> \<bar>a\<bar> \<le> (2::rat) ^ n"
proof -
  assume h: "\<bar>a\<bar> \<le> 2 ^ m" "m \<le> n"
  have "(2::rat) ^ m \<le> 2 ^ n" using h(2) by (intro power_increasing) simp_all
  with h(1) show ?thesis by linarith
qed

lemma to_px_scale:
  assumes "\<bar>v\<bar> \<le> 2 ^ 301" and "1 / 2 ^ 300 \<le> \<bar>pdf\<bar>" and "\<bar>rat_of_int img\<bar> \<le> 2 ^ 300"
  shows "to_px (Fin v) (Fin pdf) img = Inr (scale_px v pdf img)"
proof -
  have "0 < \<bar>pdf\<bar>" using assms(2) by (rule less_le_trans[rotated]) simp
  then have nz: "pdf \<noteq> 0" by simp
  have q: "\<bar>v / pdf\<bar> \<le> 2 ^ (301 + 300)" using assms(1,2) by (rule abs_div_le)
  have a: "\<bar>rnd (v / pdf)\<bar> \<le> 2 ^ (301 + 300)" using q by (rule rnd_abs_le)
  have i: "\<bar>rnd (rat_of_int img)\<bar> \<le> 2 ^ 300" using assms(3) by (rule rnd_abs_le)
  have m: "\<bar>rnd (v / pdf) * rnd (rat_of_int img)\<bar> \<le> 2 ^ (301 + 300 + 300)"
    using a i by (rule abs_mult_le)
  have 1: "round64 (v / pdf) = Fin (rnd (v / pdf))" using q by (rule round64_fin) simp
  have 2: "float_of_int img = Inr (Fin (rnd (of_int img)))"
    using assms(3) by (rule float_of_int_fin) simp
  have 3: "round64 (rnd (v / pdf) * rnd (rat_of_int img))
             = Fin (rnd (rnd (v / pdf) * rnd (rat_of_int img)))"
    using m by (rule round64_fin) simp
  show ?thesis by (simp add: to_px_def scale_px_def bind_r_def nz 1 2 3)
qed

lemma half_fin:
  assumes "\<bar>pdf\<bar> \<le> 2 ^ 300"
  shows "round64 (pdf / 2) = Fin (rnd (pdf / 2))"
    and "\<bar>rnd (pdf / 2)\<bar> \<le> 2 ^ 300"
proof -
  have h: "\<bar>pdf / 2\<bar> \<le> 2 ^ 300" using assms by simp
  then show "\<bar>rnd (pdf / 2)\<bar> \<le> 2 ^ 300" by (rule rnd_abs_le)
  show "round64 (pdf / 2) = Fin (rnd (pdf / 2))" using h by (rule round64_fin) simp
qed

lemma fsub_fin:
  assumes "\<bar>a\<bar> \<le> 2 ^ 300" and "\<bar>b\<bar> \<le> 2 ^ 300"
  shows "round64 (a - b) = Fin (rnd (a - b))" and "\<bar>rnd (a - b)\<bar> \<le> 2 ^ 301"
proof -
  have h: "\<bar>a - b\<bar> \<le> 2 ^ Suc 300" using assms by (rule abs_add_le)
  then have h': "\<bar>a - b\<bar> \<le> 2 ^ 301" by simp
  then show "\<bar>rnd (a - b)\<bar> \<le> 2 ^ 301" by (rule rnd_abs_le)
  show "round64 (a - b) = Fin (rnd (a - b))" using h' by (rule round64_fin) simp
qed

lemma to_px_center_scale:
  assumes "\<bar>v\<bar> \<le> 2 ^ 300" and "1 / 2 ^ 300 \<le> \<bar>pdf_h\<bar>" and "\<bar>pdf_h\<bar> \<le> 2 ^ 300"
    and "\<bar>rat_of_int img_h\<bar> \<le> 2 ^ 300"
  shows "to_px_center (Fin (rnd (pdf_h / 2))) (Fin v) (Fin pdf_h) img_h
           = Inr (scale_px_center v pdf_h img_h)"
proof -
  have "0 < \<bar>pdf_h\<bar>" using assms(2) by (rule less_le_trans[rotated]) simp
  then have nz: "pdf_h \<noteq> 0" by simp
  define cy where "cy = rnd (pdf_h / 2)"
  have cy: "\<bar>cy\<bar> \<le> 2 ^ 300" unfolding cy_def using assms(3) by (rule half_fin(2))
  define d where "d = rnd (cy - v)"
  have s: "round64 (cy - v) = Fin d" and d: "\<bar>d\<bar> \<le> 2 ^ 301"
    unfolding d_def using cy assms(1) by (rule fsub_fin)+
  define a where "a = rnd (d / pdf_h)"
  have q: "\<bar>d / pdf_h\<bar> \<le> 2 ^ (301 + 300)" using d assms(2) by (rule abs_div_le)
  have a: "\<bar>a\<bar> \<le> 2 ^ (301 + 300)" unfolding a_def using q by (rule rnd_abs_le)
  have 1: "round64 (d / pdf_h) = Fin a" unfolding a_def using q by (rule round64_fin) simp
  define i where "i = rnd (rat_of_int img_h)"
  have i: "\<bar>i\<bar> \<le> 2 ^ 300" unfolding i_def using assms(4) by (rule rnd_abs_le)
  have 2: "float_of_int img_h = Inr (Fin i)"
    unfolding i_def using assms(4) by (rule float_of_int_fin) simp
  define p where "p = rnd (a * i)"
  have m: "\<bar>a * i\<bar> \<le> 2 ^ (301 + 300 + 300)" using a i by (rule abs_mult_le)
  have 3: "round64 (a * i) = Fin p" unfolding p_def using m by (rule round64_fin) simp
  have p: "\<bar>p\<bar> \<le> 2 ^ 901" unfolding p_def using m rnd_abs_le[of "a * i" 901] by simp
  define h where "h = rnd (rat_of_int img_h / 2)"
  have "\<bar>rat_of_int img_h / 2\<bar> \<le> 2 ^ 300" using assms(4) by simp
  then have h: "\<bar>h\<bar> \<le> 2 ^ 300" unfolding h_def by (rule rnd_abs_le)
  have "(2::rat) ^ 300 \<le> 2 ^ 1023" by (intro power_increasing) simp_all
  then have "\<bar>h\<bar> \<le> max_float" using h max_float_ge by linarith
  then have 4: "int_truediv img_h 2 = Inr h" by (simp add: int_truediv_def h_def Let_def)
  have h': "\<bar>h\<bar> \<le> 2 ^ 901" using h by (rule abs_le_mono) simp
  have "\<bar>p + h\<bar> \<le> 2 ^ Suc 901" using p h' by (rule abs_add_le)
  then have 5: "round64 (p + h) = Fin (rnd (p + h))" by (rule round64_fin) simp
  have "to_px_center (Fin cy) (Fin v) (Fin pdf_h) img_h = Inr (py_trunc (rnd (p + h)))"
    by (simp add: to_px_center_def bind_r_def s nz 1 2 3 4 5)
  then show ?thesis
    by (simp add: scale_px_center_def cy_def d_def a_def i_def p_def h_def)
qed

lemma convert_bbox_spec:
  assumes "\<bar>l\<bar> \<le> 2 ^ 300" and "\<bar>t\<bar> \<le> 2 ^ 300" and "\<bar>r\<bar> \<le> 2 ^ 300" and "\<bar>b\<bar> \<le> 2 ^ 300"
    and "1 / 2 ^ 300 \<le> \<bar>pdf_w\<bar>" and "\<bar>pdf_w\<bar> \<le> 2 ^ 300"
    and "1 / 2 ^ 300 \<le> \<bar>pdf_h\<bar>" and "\<bar>pdf_h\<bar> \<le> 2 ^ 300"
    and "\<bar>rat_of_int img_w\<bar> \<le> 2 ^ 300" and "\<bar>rat_of_int img_h\<bar> \<le> 2 ^ 300"
  shows "convert_bbox
           (Some \<lparr>bb_l = Fin l, bb_t = Fin t, bb_r = Fin r, bb_b = Fin b, bb_coord_origin = co\<rparr>)
           (origin_name origin) (Fin pdf_w) (Fin pdf_h) img_w img_h
         = Inr (toPixelBBox (l, t, r, b) origin pdf_w pdf_h img_w img_h)"
proof -
  have big: "\<bar>x\<bar> \<le> 2 ^ 301" if "\<bar>x\<bar> \<le> 2 ^ 300" for x :: rat
    using that by (rule abs_le_mono) simp
  have xl: "to_px (Fin l) (Fin pdf_w) img_w = Inr (scale_px l pdf_w img_w)"
    using big[OF assms(1)] assms(5,9) by (rule to_px_scale)
  have xr: "to_px (Fin r) (Fin pdf_w) img_w = Inr (scale_px r pdf_w img_w)"
    using big[OF assms(3)] assms(5,9) by (rule to_px_scale)
  have yt: "to_px (Fin t) (Fin pdf_h) img_h = Inr (scale_px t pdf_h img_h)"
    using big[OF assms(2)] assms(7,10) by (rule to_px_scale)
  have yb: "to_px (Fin b) (Fin pdf_h) img_h = Inr (scale_px b pdf_h img_h)"
    using big[OF assms(4)] assms(7,10) by (rule to_px_scale)
  have sl: "round64 (pdf_w - l) = Fin (rnd (pdf_w - l))"
    and sr: "round64 (pdf_w - r) = Fin (rnd (pdf_w - r))"
    and st: "round64 (pdf_h - t) = Fin (rnd (pdf_h - t))"
    and sb: "round64 (pdf_h - b) = Fin (rnd (pdf_h - b))"
    using assms by (simp_all only: fsub_fin(1))
  have ml: "to_px (Fin (rnd (pdf_w - l))) (Fin pdf_w) img_w
              = Inr (scale_px (rnd (pdf_w - l)) pdf_w img_w)"
    using fsub_fin(2)[OF assms(6,1)] assms(5,9) by (rule to_px_scale)
  have mr: "to_px (Fin (rnd (pdf_w - r))) (Fin pdf_w) img_w
              = Inr (scale_px (rnd (pdf_w - r)) pdf_w img_w)"
    using fsub_fin(2)[OF assms(6,3)] assms(5,9) by (rule to_px_scale)
  have mt: "to_px (Fin (rnd (pdf_h - t))) (Fin pdf_h) img_h
              = Inr (scale_px (rnd (pdf_h - t)) pdf_h img_h)"
    using fsub_fin(2)[OF assms(8,2)] assms(7,10) by (rule to_px_scale)
  have mb: "to_px (Fin (rnd (pdf_h - b))) (Fin pdf_h) img_h
              = Inr (scale_px (rnd (pdf_h - b)) pdf_h img_h)"
    using fsub_fin(2)[OF assms(8,4)] assms(7,10) by (rule to_px_scale)
  have hw: "round64 (pdf_w / 2) = Fin (rnd (pdf_w / 2))"
    and hh: "round64 (pdf_h / 2) = Fin (rnd (pdf_h / 2))"
    using assms(6,8) by (simp_all only: half_fin(1))
  have ct: "to_px_center (Fin (rnd (pdf_h / 2))) (Fin t) (Fin pdf_h) img_h
              = Inr (scale_px_center t pdf_h img_h)"
    using assms(2,7,8,10) by (rule to_px_center_scale)
  have cb: "to_px_center (Fin (rnd (pdf_h / 2))) (Fin b) (Fin pdf_h) img_h
              = Inr (scale_px_center b pdf_h img_h)"
    using assms(4,7,8,10) by (rule to_px_center_scale)
  show ?thesis
    by (cases origin)
       (simp_all add: convert_bbox_def toPixelBBox_def bind_r_def xl xr yt yb sl sr st sb
          ml mr mt mb hw hh ct cb)
qed

lemma get_pixel_bbox_prov:
  "item_prov it = Some (p # ps) \<Longrightarrow>
   get_pixel_bbox it pdf_w pdf_h img_w img_h =
     convert_bbox (prov_bbox p)
       (origin_value (case prov_coord_origin p of None \<Rightarrow> OriginEnum BOTTOMLEFT | Some x \<Rightarrow> x))
       pdf_w pdf_h img_w img_h"
  by (simp add: get_pixel_bbox_def item_bbox_origin_def has_prov_def bind_r_def)

lemma get_pixel_bbox_no_prov:
  "item_prov it = None \<or> item_prov it = Some [] \<Longrightarrow> item_bbox it = Some bb \<Longrightarrow>
   get_pixel_bbox it pdf_w pdf_h img_w img_h =
     convert_bbox (Some bb) (origin_value (bb_coord_origin bb)) pdf_w pdf_h img_w img_h"
  by (auto simp add: get_pixel_bbox_def item_bbox_origin_def has_prov_def bind_r_def)

lemma scale_px_near:
  assumes v: "0 \<le> v" "v < 2 ^ 51" and W: "0 < W" "W < 2 ^ 53"
  shows "scale_px (of_int v) (of_int W) W = v \<or> scale_px (of_int v) (of_int W) W = v - 1"
proof (cases "v = 0")
  case True
  then show ?thesis by (simp add: scale_px_def rnd_0 py_trunc_def)
next
  case False
  with v have v1: "1 \<le> v" by simp
  define u :: rat where "u = 2 powi (- 53)"
  define rv :: rat where "rv = of_int v"
  define rW :: rat where "rW = of_int W"
  have rv1: "1 \<le> rv" using v1 unfolding rv_def by simp
  have rvlt: "rv < 2 ^ 51" using v(2) unfolding rv_def
    by (metis of_int_less_numeral_power_cancel_iff)
  have rWpos: "0 < rW" using W(1) by (simp add: rW_def)
  have rWlt: "rW < 2 ^ 53" using W(2) unfolding rW_def
    by (metis of_int_less_numeral_power_cancel_iff)
  have fW: "rnd (rat_of_int W) = rW" using W by (simp add: rnd_of_int rW_def)
  define q where "q = rv / rW"
  define a where "a = rnd q"
  define p where "p = a * rW"
  define c where "c = rnd p"
  have sc: "scale_px (of_int v) (of_int W) W = py_trunc c"
    by (simp add: scale_px_def fW c_def p_def a_def q_def rv_def rW_def)
  have upos: "0 < u" "u = 1 / 2 ^ 53" by (simp_all add: u_def power_int_minus field_simps)
  have "1 / 2 ^ 53 < 1 / rW" using rWlt rWpos by (simp add: field_simps)
  also have "\<dots> \<le> q" using rv1 rWpos unfolding q_def by (simp add: field_simps)
  finally have qlo: "1 / 2 ^ 53 < q" .
  have "(2::rat) powi (- 1022) \<le> 1 / 2 ^ 53" by (simp add: power_int_minus field_simps)
  with qlo have "2 powi (- 1022) \<le> q" by linarith
  from rnd_rel_err[OF this] have ea: "\<bar>a - q\<bar> \<le> q * u" by (simp add: a_def u_def)
  have "p - rv = (a - q) * rW" using rWpos by (simp add: p_def q_def algebra_simps)
  then have "\<bar>p - rv\<bar> = \<bar>a - q\<bar> * rW" using rWpos by (simp add: abs_mult)
  also have "\<dots> \<le> (q * u) * rW" using ea rWpos by (intro mult_right_mono) simp_all
  also have "\<dots> = rv * u" using rWpos by (simp add: q_def)
  finally have ep: "\<bar>p - rv\<bar> \<le> rv * u" .
  have rvu: "rv * u < 1 / 4" using rvlt unfolding upos(2) by (simp add: field_simps)
  have plo: "1 / 2 \<le> p" using ep rvu rv1 by linarith
  have "(2::rat) powi (- 1022) \<le> 1 / 2" by (simp add: power_int_minus field_simps)
  with plo have "2 powi (- 1022) \<le> p" by linarith
  from rnd_rel_err[OF this] have ec: "\<bar>c - p\<bar> \<le> p * u" by (simp add: c_def u_def)
  have phi: "p \<le> rv + 1 / 4" using ep rvu by linarith
  have "p * u \<le> (rv + 1 / 4) * u" using phi upos(1) by (intro mult_right_mono) simp_all
  also have "\<dots> = rv * u + u / 4" by (simp add: algebra_simps)
  also have "\<dots> < 1 / 4 + 1 / 4" using rvu unfolding upos(2) by (simp add: field_simps)
  finally have pu: "p * u < 1 / 2" by simp
  have "\<bar>c - rv\<bar> \<le> \<bar>c - p\<bar> + \<bar>p - rv\<bar>" by simp
  with ec ep pu rvu have cv: "\<bar>c - rv\<bar> < 1" by linarith
  then have c1: "rv - 1 < c" and c2: "c < rv + 1" by linarith+
  have cpos: "0 \<le> c" using c1 rv1 by linarith
  have "rat_of_int (v - 1) < c" using c1 by (simp add: rv_def)
  then have "rat_of_int (v - 1) \<le> c" by simp
  then have f1: "v - 1 \<le> \<lfloor>c\<rfloor>" by (simp only: le_floor_iff)
  have "c < rat_of_int (v + 1)" using c2 by (simp add: rv_def)
  then have f2: "\<lfloor>c\<rfloor> < v + 1" by (simp only: floor_less_iff)
  have "py_trunc c = \<lfloor>c\<rfloor>" using cpos by (simp add: py_trunc_def)
  with f1 f2 sc show ?thesis by linarith
qed

section \<open>Worked conversions\<close>

lemma scale_95_595: "scale_px 95 595 595 = 94"
proof -
  have a: "rnd (95 / 595) = (1438124250756965 / 9007199254740992)"
    by (rule rnd_near[where k = "(- 3)" and m = "5752497003027860", THEN trans]) (simp_all add: power_int_minus)
  have f: "rnd (rat_of_int 595) = 595"
    using rnd_of_int[of 595] by simp
  have c: "rnd ((1438124250756965 / 9007199254740992) * 595) = (6685030696878079 / 70368744177664)"
    by (rule rnd_near[where k = "6" and m = "6685030696878079", THEN trans]) (simp_all add: power_int_minus)
  have "py_trunc (6685030696878079 / 70368744177664) = 94" by (rule py_trunc_eqI) simp_all
  then show ?thesis by (simp only: scale_px_def a f c)
qed

lemma scale_10_842: "scale_px 10 842 842 = 10"
proof -
  have a: "rnd (10 / 842) = (6846327224506217 / 576460752303423488)"
    by (rule rnd_near[where k = "(- 7)" and m = "6846327224506217", THEN trans]) (simp_all add: power_int_minus)
  have f: "rnd (rat_of_int 842) = 842"
    using rnd_of_int[of 842] by simp
  have c: "rnd ((6846327224506217 / 576460752303423488) * 842) = 10"
    by (rule rnd_near[where k = "3" and m = "5629499534213120", THEN trans]) (simp_all add: power_int_minus)
  have "py_trunc 10 = 10" by (rule py_trunc_eqI) simp_all
  then show ?thesis by (simp only: scale_px_def a f c)
qed

lemma scale_200_595: "scale_px 200 595 595 = 200"
proof -
  have a: "rnd (200 / 595) = (3027630001593611 / 9007199254740992)"
    by (rule rnd_near[where k = "(- 2)" and m = "6055260003187222", THEN trans]) (simp_all add: power_int_minus)
  have f: "rnd (rat_of_int 595) = 595"
    using rnd_of_int[of 595] by simp
  have c: "rnd ((3027630001593611 / 9007199254740992) * 595) = (7036874417766401 / 35184372088832)"
    by (rule rnd_near[where k = "7" and m = "7036874417766401", THEN trans]) (simp_all add: power_int_minus)
  have "py_trunc (7036874417766401 / 35184372088832) = 200" by (rule py_trunc_eqI) simp_all
  then show ?thesis by (simp only: scale_px_def a f c)
qed

lemma scale_20_842: "scale_px 20 842 842 = 20"
proof -
  have a: "rnd (20 / 842) = (6846327224506217 / 288230376151711744)"
    by (rule rnd_near[where k = "(- 6)" and m = "6846327224506217", THEN trans]) (simp_all add: power_int_minus)
  have f: "rnd (rat_of_int 842) = 842"
    using rnd_of_int[of 842] by simp
  have c: "rnd ((6846327224506217 / 288230376151711744) * 842) = 20"
    by (rule rnd_near[where k = "4" and m = "5629499534213120", THEN trans]) (simp_all add: power_int_minus)
  have "py_trunc 20 = 20" by (rule py_trunc_eqI) simp_all
  then show ?thesis by (simp only: scale_px_def a f c)
qed

lemma scale_100_200: "scale_px 100 200 200 = 100"
proof -
  have a: "rnd (100 / 200) = (1 / 2)"
    by (rule rnd_near[where k = "(- 1)" and m = "4503599627370496", THEN trans]) (simp_all add: power_int_minus)
  have f: "rnd (rat_of_int 200) = 200"
    using rnd_of_int[of 200] by simp
  have c: "rnd ((1 / 2) * 200) = 100"
    by (rule rnd_near[where k = "6" and m = "7036874417766400", THEN trans]) (simp_all add: power_int_minus)
  have "py_trunc 100 = 100" by (rule py_trunc_eqI) simp_all
  then show ?thesis by (simp only: scale_px_def a f c)
qed

lemma scale_200_200: "scale_px 200 200 200 = 200"
proof -
  have a: "rnd (200 / 200) = 1"
    by (rule rnd_near[where k = "0" and m = "4503599627370496", THEN trans]) (simp_all add: power_int_minus)
  have f: "rnd (rat_of_int 200) = 200"
    using rnd_of_int[of 200] by simp
  have c: "rnd (1 * 200) = 200"
    by (rule rnd_near[where k = "7" and m = "7036874417766400", THEN trans]) (simp_all add: power_int_minus)
  have "py_trunc 200 = 200" by (rule py_trunc_eqI) simp_all
  then show ?thesis by (simp only: scale_px_def a f c)
qed

lemma scale_0_100: "scale_px 0 100 100 = 0"
proof -
  have a: "rnd (0 / 100) = 0"
    by (simp add: rnd_0)
  have f: "rnd (rat_of_int 100) = 100"
    using rnd_of_int[of 100] by simp
  have c: "rnd (0 * 100) = 0"
    by (simp add: rnd_0)
  have "py_trunc 0 = 0" by (rule py_trunc_eqI) simp_all
  then show ?thesis by (simp only: scale_px_def a f c)
qed

lemma scale_50_100: "scale_px 50 100 100 = 50"
proof -
  have a: "rnd (50 / 100) = (1 / 2)"
    by (rule rnd_near[where k = "(- 1)" and m = "4503599627370496", THEN trans]) (simp_all add: power_int_minus)
  have f: "rnd (rat_of_int 100) = 100"
    using rnd_of_int[of 100] by simp
  have c: "rnd ((1 / 2) * 100) = 50"
    by (rule rnd_near[where k = "5" and m = "7036874417766400", THEN trans]) (simp_all add: power_int_minus)
  have "py_trunc 50 = 50" by (rule py_trunc_eqI) simp_all
  then show ?thesis by (simp only: scale_px_def a f c)
qed

lemma scale_0_200: "scale_px 0 200 200 = 0"
proof -
  have a: "rnd (0 / 200) = 0"
    by (simp add: rnd_0)
  have f: "rnd (rat_of_int 200) = 200"
    using rnd_of_int[of 200] by simp
  have c: "rnd (0 * 200) = 0"
    by (simp add: rnd_0)
  have "py_trunc 0 = 0" by (rule py_trunc_eqI) simp_all
  then show ?thesis by (simp only: scale_px_def a f c)
qed

lemma scale_100_100: "scale_px 100 100 100 = 100"
proof -
  have a: "rnd (100 / 100) = 1"
    by (rule rnd_near[where k = "0" and m = "4503599627370496", THEN trans]) (simp_all add: power_int_minus)
  have f: "rnd (rat_of_int 100) = 100"
    using rnd_of_int[of 100] by simp
  have c: "rnd (1 * 100) = 100"
    by (rule rnd_near[where k = "6" and m = "7036874417766400", THEN trans]) (simp_all add: power_int_minus)
  have "py_trunc 100 = 100" by (rule py_trunc_eqI) simp_all
  then show ?thesis by (simp only: scale_px_def a f c)
qed

lemma inv_l: "inverse_topleft 60 1224 612 = 30"
proof -
  have f: "rnd (rat_of_int 1224) = 1224"
    using rnd_of_int[of 1224] by simp
  have a: "rnd (60 / 1224) = (7064470003718425 / 144115188075855872)"
    by (rule rnd_near[where k = "(- 5)" and m = "7064470003718425", THEN trans]) (simp_all add: power_int_minus)
  have c: "rnd ((7064470003718425 / 144115188075855872) * 612) = 30"
    by (rule rnd_near[where k = "4" and m = "8444249301319680", THEN trans]) (simp_all add: power_int_minus)
  show ?thesis by (simp only: inverse_topleft_def f a c)
qed

lemma inv_t: "inverse_topleft 80 1584 792 = 40"
proof -
  have f: "rnd (rat_of_int 1584) = 1584"
    using rnd_of_int[of 1584] by simp
  have a: "rnd (80 / 1584) = (7278544852315953 / 144115188075855872)"
    by (rule rnd_near[where k = "(- 5)" and m = "7278544852315953", THEN trans]) (simp_all add: power_int_minus)
  have c: "rnd ((7278544852315953 / 144115188075855872) * 792) = 40"
    by (rule rnd_near[where k = "5" and m = "5629499534213120", THEN trans]) (simp_all add: power_int_minus)
  show ?thesis by (simp only: inverse_topleft_def f a c)
qed

lemma inv_r: "inverse_topleft 160 1224 612 = 80"
proof -
  have f: "rnd (rat_of_int 1224) = 1224"
    using rnd_of_int[of 1224] by simp
  have a: "rnd (160 / 1224) = (4709646669145617 / 36028797018963968)"
    by (rule rnd_near[where k = "(- 3)" and m = "4709646669145617", THEN trans]) (simp_all add: power_int_minus)
  have c: "rnd ((4709646669145617 / 36028797018963968) * 612) = 80"
    by (rule rnd_near[where k = "6" and m = "5629499534213120", THEN trans]) (simp_all add: power_int_minus)
  show ?thesis by (simp only: inverse_topleft_def f a c)
qed

lemma inv_b: "inverse_topleft 130 1584 792 = 65"
proof -
  have f: "rnd (rat_of_int 1584) = 1584"
    using rnd_of_int[of 1584] by simp
  have a: "rnd (130 / 1584) = (739227211563339 / 9007199254740992)"
    by (rule rnd_near[where k = "(- 4)" and m = "5913817692506712", THEN trans]) (simp_all add: power_int_minus)
  have c: "rnd ((739227211563339 / 9007199254740992) * 792) = 65"
    by (rule rnd_near[where k = "6" and m = "4573968371548160", THEN trans]) (simp_all add: power_int_minus)
  show ?thesis by (simp only: inverse_topleft_def f a c)
qed

lemma rnd_small_ints:
  "rnd 4 = 4" "rnd 10 = 10" "rnd 20 = 20" "rnd 30 = 30" "rnd 34 = 34" "rnd 40 = 40" "rnd 44 = 44"
  "rnd 50 = 50" "rnd 60 = 60" "rnd 61 = 61" "rnd 65 = 65" "rnd 76 = 76" "rnd 80 = 80"
  "rnd 100 = 100" "rnd 130 = 130" "rnd 160 = 160" "rnd 200 = 200"
  using rnd_of_int[of 4] rnd_of_int[of 10] rnd_of_int[of 20] rnd_of_int[of 30] rnd_of_int[of 34]
    rnd_of_int[of 40] rnd_of_int[of 44] rnd_of_int[of 50] rnd_of_int[of 60] rnd_of_int[of 61]
    rnd_of_int[of 65] rnd_of_int[of 76] rnd_of_int[of 80] rnd_of_int[of 100] rnd_of_int[of 130]
    rnd_of_int[of 160] rnd_of_int[of 200]
  by simp_all

section \<open>get_pixel_bbox\<close>

lemma get_pixel_bbox_spec:
  assumes "item_bbox_origin it
             = Inr (Some \<lparr>bb_l = Fin l, bb_t = Fin t, bb_r = Fin r, bb_b = Fin b,
                           bb_coord_origin = co\<rparr>, origin_name origin)"
    and "\<bar>l\<bar> \<le> 2 ^ 300" and "\<bar>t\<bar> \<le> 2 ^ 300" and "\<bar>r\<bar> \<le> 2 ^ 300" and "\<bar>b\<bar> \<le> 2 ^ 300"
    and "1 / 2 ^ 300 \<le> \<bar>pdf_w\<bar>" and "\<bar>pdf_w\<bar> \<le> 2 ^ 300"
    and "1 / 2 ^ 300 \<le> \<bar>pdf_h\<bar>" and "\<bar>pdf_h\<bar> \<le> 2 ^ 300"
    and "\<bar>rat_of_int img_w\<bar> \<le> 2 ^ 300" and "\<bar>rat_of_int img_h\<bar> \<le> 2 ^ 300"
  shows "get_pixel_bbox it (Fin pdf_w) (Fin pdf_h) img_w img_h
           = Inr (toPixelBBox (l, t, r, b) origin pdf_w pdf_h img_w img_h)"
  using convert_bbox_spec[OF assms(2-11), of co origin]
  by (simp add: get_pixel_bbox_def bind_r_def assms(1) del: origin_name.simps)

lemma int_bound:
  assumes "0 \<le> n" and "n < 2 ^ k" and "k \<le> 300"
  shows "\<bar>rat_of_int n\<bar> \<le> 2 ^ 300"
proof -
  have "rat_of_int n \<le> of_int (2 ^ k)" using assms(2) by (simp only: of_int_le_iff)
  then have "rat_of_int n \<le> 2 ^ k" by simp
  also have "(2::rat) ^ k \<le> 2 ^ 300" using assms(3) by (intro power_increasing) simp_all
  finally show ?thesis using assms(1) by simp
qed

lemma int_bound_le:
  assumes "0 \<le> n" and "n \<le> 2 ^ 300"
  shows "\<bar>rat_of_int n\<bar> \<le> 2 ^ 300"
proof -
  have "rat_of_int n \<le> of_int (2 ^ 300)" using assms(2) by (simp only: of_int_le_iff)
  then show ?thesis using assms(1) by simp
qed

lemma int_size:
  assumes "0 < n" and "n < 2 ^ 53"
  shows "1 / 2 ^ 300 \<le> \<bar>rat_of_int n\<bar>" and "\<bar>rat_of_int n\<bar> \<le> 2 ^ 300"
proof -
  have "1 \<le> rat_of_int n" using assms(1) by simp
  moreover have "(1::rat) / 2 ^ 300 \<le> 1" by simp
  ultimately show "1 / 2 ^ 300 \<le> \<bar>rat_of_int n\<bar>" by linarith
  show "\<bar>rat_of_int n\<bar> \<le> 2 ^ 300" using assms by (intro int_bound[of n 53]) simp_all
qed

text \<open>
  C1 (amended). For an item whose box and origin resolve to finite edges \<open>l\<close>, \<open>t\<close>, \<open>r\<close>,
  \<open>b\<close> of magnitude at most \<open>2^300\<close> and one of the five origins, page sizes between
  \<open>2^-300\<close> and \<open>2^300\<close> and positive image sizes up to \<open>2^300\<close>, \<open>get_pixel_bbox\<close>
  returns the truncated pixel box of the axis rules (\<open>toPixelBBox\<close>). For origin TOPLEFT
  with \<open>pdfW = imgW\<close> and \<open>pdfH = imgH\<close>, every pixel coordinate of an integer-valued box
  with edges in \<open>[0, 2^51)\<close> is the edge itself or the edge minus one.
\<close>

theorem get_pixel_bbox_axis_rules:
  "(item_bbox_origin it
      = Inr (Some \<lparr>bb_l = Fin l, bb_t = Fin t, bb_r = Fin r, bb_b = Fin b,
                    bb_coord_origin = co\<rparr>, origin_name origin)
    \<and> \<bar>l\<bar> \<le> 2 ^ 300 \<and> \<bar>t\<bar> \<le> 2 ^ 300 \<and> \<bar>r\<bar> \<le> 2 ^ 300 \<and> \<bar>b\<bar> \<le> 2 ^ 300
    \<and> 1 / 2 ^ 300 \<le> pdf_w \<and> pdf_w \<le> 2 ^ 300 \<and> 1 / 2 ^ 300 \<le> pdf_h \<and> pdf_h \<le> 2 ^ 300
    \<and> 0 < img_w \<and> img_w \<le> 2 ^ 300 \<and> 0 < img_h \<and> img_h \<le> 2 ^ 300 \<longrightarrow>
      get_pixel_bbox it (Fin pdf_w) (Fin pdf_h) img_w img_h
        = Inr (toPixelBBox (l, t, r, b) origin pdf_w pdf_h img_w img_h))
   \<and> (item_bbox_origin it'
         = Inr (Some \<lparr>bb_l = Fin (of_int xl), bb_t = Fin (of_int xt), bb_r = Fin (of_int xr),
                       bb_b = Fin (of_int xb), bb_coord_origin = co'\<rparr>, origin_name TOPLEFT)
       \<and> 0 < w \<and> w < 2 ^ 53 \<and> 0 < h \<and> h < 2 ^ 53
       \<and> 0 \<le> xl \<and> xl < 2 ^ 51 \<and> 0 \<le> xt \<and> xt < 2 ^ 51
       \<and> 0 \<le> xr \<and> xr < 2 ^ 51 \<and> 0 \<le> xb \<and> xb < 2 ^ 51 \<longrightarrow>
      (\<exists>x1 y1 x2 y2.
          get_pixel_bbox it' (Fin (of_int w)) (Fin (of_int h)) w h = Inr (x1, y1, x2, y2)
          \<and> (x1 = xl \<or> x1 = xl - 1) \<and> (y1 = xt \<or> y1 = xt - 1)
          \<and> (x2 = xr \<or> x2 = xr - 1) \<and> (y2 = xb \<or> y2 = xb - 1)))"
proof (intro conjI impI)
  assume h: "item_bbox_origin it
      = Inr (Some \<lparr>bb_l = Fin l, bb_t = Fin t, bb_r = Fin r, bb_b = Fin b,
                    bb_coord_origin = co\<rparr>, origin_name origin)
    \<and> \<bar>l\<bar> \<le> 2 ^ 300 \<and> \<bar>t\<bar> \<le> 2 ^ 300 \<and> \<bar>r\<bar> \<le> 2 ^ 300 \<and> \<bar>b\<bar> \<le> 2 ^ 300
    \<and> 1 / 2 ^ 300 \<le> pdf_w \<and> pdf_w \<le> 2 ^ 300 \<and> 1 / 2 ^ 300 \<le> pdf_h \<and> pdf_h \<le> 2 ^ 300
    \<and> 0 < img_w \<and> img_w \<le> 2 ^ 300 \<and> 0 < img_h \<and> img_h \<le> 2 ^ 300"
  have pw: "0 < pdf_w" and ph: "0 < pdf_h"
    using h by (auto intro: less_le_trans[of 0 "1 / 2 ^ 300"])
  have iw: "\<bar>rat_of_int img_w\<bar> \<le> 2 ^ 300" and ih: "\<bar>rat_of_int img_h\<bar> \<le> 2 ^ 300"
    using h by (simp_all only: int_bound_le less_imp_le)
  show "get_pixel_bbox it (Fin pdf_w) (Fin pdf_h) img_w img_h
        = Inr (toPixelBBox (l, t, r, b) origin pdf_w pdf_h img_w img_h)"
    using h pw ph by (intro get_pixel_bbox_spec[where co = co] iw ih) simp_all
next
  assume h: "item_bbox_origin it'
         = Inr (Some \<lparr>bb_l = Fin (of_int xl), bb_t = Fin (of_int xt), bb_r = Fin (of_int xr),
                       bb_b = Fin (of_int xb), bb_coord_origin = co'\<rparr>, origin_name TOPLEFT)
       \<and> 0 < w \<and> w < 2 ^ 53 \<and> 0 < h \<and> h < 2 ^ 53
       \<and> 0 \<le> xl \<and> xl < 2 ^ 51 \<and> 0 \<le> xt \<and> xt < 2 ^ 51
       \<and> 0 \<le> xr \<and> xr < 2 ^ 51 \<and> 0 \<le> xb \<and> xb < 2 ^ 51"
  have b: "\<bar>rat_of_int xl\<bar> \<le> 2 ^ 300" "\<bar>rat_of_int xt\<bar> \<le> 2 ^ 300"
    "\<bar>rat_of_int xr\<bar> \<le> 2 ^ 300" "\<bar>rat_of_int xb\<bar> \<le> 2 ^ 300"
    using h by (auto intro: int_bound[where k = 51])
  have sw: "1 / 2 ^ 300 \<le> \<bar>rat_of_int w\<bar>" "\<bar>rat_of_int w\<bar> \<le> 2 ^ 300"
    and sh: "1 / 2 ^ 300 \<le> \<bar>rat_of_int h\<bar>" "\<bar>rat_of_int h\<bar> \<le> 2 ^ 300"
    using h by (auto intro: int_size)
  have "get_pixel_bbox it' (Fin (of_int w)) (Fin (of_int h)) w h
      = Inr (toPixelBBox (of_int xl, of_int xt, of_int xr, of_int xb) TOPLEFT
               (of_int w) (of_int h) w h)"
    using h by (intro get_pixel_bbox_spec[where co = co'] b sw sh) simp
  then have "get_pixel_bbox it' (Fin (of_int w)) (Fin (of_int h)) w h
      = Inr (scale_px (of_int xl) (of_int w) w, scale_px (of_int xt) (of_int h) h,
             scale_px (of_int xr) (of_int w) w, scale_px (of_int xb) (of_int h) h)"
    by (simp add: toPixelBBox_def)
  moreover have "scale_px (of_int xl) (of_int w) w = xl \<or> scale_px (of_int xl) (of_int w) w = xl - 1"
    using h by (intro scale_px_near) simp_all
  moreover have "scale_px (of_int xt) (of_int h) h = xt \<or> scale_px (of_int xt) (of_int h) h = xt - 1"
    using h by (intro scale_px_near) simp_all
  moreover have "scale_px (of_int xr) (of_int w) w = xr \<or> scale_px (of_int xr) (of_int w) w = xr - 1"
    using h by (intro scale_px_near) simp_all
  moreover have "scale_px (of_int xb) (of_int h) h = xb \<or> scale_px (of_int xb) (of_int h) h = xb - 1"
    using h by (intro scale_px_near) simp_all
  ultimately show "\<exists>x1 y1 x2 y2.
          get_pixel_bbox it' (Fin (of_int w)) (Fin (of_int h)) w h = Inr (x1, y1, x2, y2)
          \<and> (x1 = xl \<or> x1 = xl - 1) \<and> (y1 = xt \<or> y1 = xt - 1)
          \<and> (x2 = xr \<or> x2 = xr - 1) \<and> (y2 = xb \<or> y2 = xb - 1)"
    by blast
qed

lemma topleft_item:
  "item_bbox_origin
     \<lparr>item_prov = None,
      item_bbox = Some \<lparr>bb_l = Fin l, bb_t = Fin t, bb_r = Fin r, bb_b = Fin b,
                        bb_coord_origin = OriginEnum TOPLEFT\<rparr>\<rparr>
     = Inr (Some \<lparr>bb_l = Fin l, bb_t = Fin t, bb_r = Fin r, bb_b = Fin b,
                   bb_coord_origin = OriginEnum TOPLEFT\<rparr>, origin_name TOPLEFT)"
  by (simp add: item_bbox_origin_def has_prov_def)

lemma rnd_2_1025: "rnd (2 ^ 1025) = 2 ^ 1025"
  by (rule rnd_near[where k = "1025" and m = "4503599627370496", THEN trans])
     (simp_all add: power_int_minus)

lemma round64_2_1025: "round64 (2 ^ 1025) = PosInf"
proof -
  have "max_float < 2 ^ 1025" by (simp add: max_float_def)
  then show ?thesis by (simp only: round64_def Let_def rnd_2_1025 if_True)
qed

lemma float_of_int_595: "float_of_int 595 = Inr (Fin 595)"
  using float_of_int_fin[of 595 300] rnd_of_int[of 595] by simp

text \<open>
  C1 as stated fails. On an A4 page of 595 by 842 points rendered at 595 by 842 pixels, the
  TOPLEFT box with edges 95, 10, 200, 20 is converted to a box whose left edge is 94,
  because \<open>95 / 595 * 595\<close> rounds to a float just below 95. And on a page a quarter of a
  point wide, the box whose left edge is the float \<open>2^1023\<close> is not converted at all:
  \<open>2^1023 / 0.25\<close> is infinite, and \<open>int\<close> raises \<open>OverflowError\<close>.
\<close>

theorem get_pixel_bbox_not_identity:
  "get_pixel_bbox
     \<lparr>item_prov = None,
      item_bbox = Some \<lparr>bb_l = Fin 95, bb_t = Fin 10, bb_r = Fin 200, bb_b = Fin 20,
                        bb_coord_origin = OriginEnum TOPLEFT\<rparr>\<rparr>
     (Fin 595) (Fin 842) 595 842 = Inr (94, 10, 200, 20)
   \<and> get_pixel_bbox
     \<lparr>item_prov = None,
      item_bbox = Some \<lparr>bb_l = Fin (2 ^ 1023), bb_t = Fin 10, bb_r = Fin (2 ^ 1023),
                        bb_b = Fin 20, bb_coord_origin = OriginEnum TOPLEFT\<rparr>\<rparr>
     (Fin (1 / 4)) (Fin 842) 595 842 = Inl OverflowError"
proof -
  have a: "get_pixel_bbox
     \<lparr>item_prov = None,
      item_bbox = Some \<lparr>bb_l = Fin 95, bb_t = Fin 10, bb_r = Fin 200, bb_b = Fin 20,
                        bb_coord_origin = OriginEnum TOPLEFT\<rparr>\<rparr>
     (Fin 595) (Fin 842) 595 842 = Inr (toPixelBBox (95, 10, 200, 20) TOPLEFT 595 842 595 842)"
    by (rule get_pixel_bbox_spec[OF topleft_item]) simp_all
  have "to_px (Fin (2 ^ 1023)) (Fin (1 / 4)) 595 = Inl OverflowError"
    using round64_2_1025 by (simp add: to_px_def bind_r_def float_of_int_595)
  then have b: "get_pixel_bbox
     \<lparr>item_prov = None,
      item_bbox = Some \<lparr>bb_l = Fin (2 ^ 1023), bb_t = Fin 10, bb_r = Fin (2 ^ 1023),
                        bb_b = Fin 20, bb_coord_origin = OriginEnum TOPLEFT\<rparr>\<rparr>
     (Fin (1 / 4)) (Fin 842) 595 842 = Inl OverflowError"
    by (simp add: get_pixel_bbox_def item_bbox_origin_def has_prov_def convert_bbox_def bind_r_def)
  show ?thesis
    using a b
    by (simp add: toPixelBBox_def scale_95_595 scale_10_842 scale_200_595 scale_20_842)
qed

theorem get_pixel_bbox_axis_rules_witness:
  "item_bbox_origin
     \<lparr>item_prov = Some [\<lparr>page_no = 1,
         prov_bbox = Some \<lparr>bb_l = Fin 0, bb_t = Fin 0, bb_r = Fin 100, bb_b = Fin 50,
                           bb_coord_origin = OriginEnum BOTTOMLEFT\<rparr>,
         prov_coord_origin = Some (OriginEnum TOPRIGHT)\<rparr>], item_bbox = None\<rparr>
     = Inr (Some \<lparr>bb_l = Fin 0, bb_t = Fin 0, bb_r = Fin 100, bb_b = Fin 50,
                   bb_coord_origin = OriginEnum BOTTOMLEFT\<rparr>, origin_name TOPRIGHT)
   \<and> get_pixel_bbox
     \<lparr>item_prov = Some [\<lparr>page_no = 1,
         prov_bbox = Some \<lparr>bb_l = Fin 0, bb_t = Fin 0, bb_r = Fin 100, bb_b = Fin 50,
                           bb_coord_origin = OriginEnum BOTTOMLEFT\<rparr>,
         prov_coord_origin = Some (OriginEnum TOPRIGHT)\<rparr>], item_bbox = None\<rparr>
     (Fin 200) (Fin 100) 200 100 = Inr (100, 0, 200, 50)
   \<and> (\<exists>x1 y1 x2 y2.
        get_pixel_bbox
          \<lparr>item_prov = None,
           item_bbox = Some \<lparr>bb_l = Fin (of_int 95), bb_t = Fin (of_int 10),
                             bb_r = Fin (of_int 200), bb_b = Fin (of_int 20),
                             bb_coord_origin = OriginEnum TOPLEFT\<rparr>\<rparr>
          (Fin (of_int 595)) (Fin (of_int 842)) 595 842 = Inr (x1, y1, x2, y2)
        \<and> (x1 = 95 \<or> x1 = 95 - 1) \<and> (y1 = 10 \<or> y1 = 10 - 1)
        \<and> (x2 = 200 \<or> x2 = 200 - 1) \<and> (y2 = 20 \<or> y2 = 20 - 1))"
proof -
  have o1: "item_bbox_origin
     \<lparr>item_prov = Some [\<lparr>page_no = 1,
         prov_bbox = Some \<lparr>bb_l = Fin 0, bb_t = Fin 0, bb_r = Fin 100, bb_b = Fin 50,
                           bb_coord_origin = OriginEnum BOTTOMLEFT\<rparr>,
         prov_coord_origin = Some (OriginEnum TOPRIGHT)\<rparr>], item_bbox = None\<rparr>
     = Inr (Some \<lparr>bb_l = Fin 0, bb_t = Fin 0, bb_r = Fin 100, bb_b = Fin 50,
                   bb_coord_origin = OriginEnum BOTTOMLEFT\<rparr>, origin_name TOPRIGHT)"
    by (simp add: item_bbox_origin_def has_prov_def)
  have t1: "toPixelBBox (0, 0, 100, 50) TOPRIGHT 200 100 200 100 = (100, 0, 200, 50)"
    by (simp add: toPixelBBox_def rnd_small_ints scale_100_200 scale_200_200 scale_0_100 scale_50_100)
  have g1: "get_pixel_bbox
     \<lparr>item_prov = Some [\<lparr>page_no = 1,
         prov_bbox = Some \<lparr>bb_l = Fin 0, bb_t = Fin 0, bb_r = Fin 100, bb_b = Fin 50,
                           bb_coord_origin = OriginEnum BOTTOMLEFT\<rparr>,
         prov_coord_origin = Some (OriginEnum TOPRIGHT)\<rparr>], item_bbox = None\<rparr>
     (Fin 200) (Fin 100) 200 100 = Inr (100, 0, 200, 50)"
    using get_pixel_bbox_axis_rules
      [where it = "\<lparr>item_prov = Some [\<lparr>page_no = 1,
         prov_bbox = Some \<lparr>bb_l = Fin 0, bb_t = Fin 0, bb_r = Fin 100, bb_b = Fin 50,
                           bb_coord_origin = OriginEnum BOTTOMLEFT\<rparr>,
         prov_coord_origin = Some (OriginEnum TOPRIGHT)\<rparr>], item_bbox = None\<rparr>"
         and l = 0 and t = 0 and r = 100 and b = 50 and co = "OriginEnum BOTTOMLEFT"
         and origin = TOPRIGHT and pdf_w = 200 and pdf_h = 100 and img_w = 200 and img_h = 100,
       THEN conjunct1]
    unfolding o1 t1 by simp
  have g2: "\<exists>x1 y1 x2 y2.
        get_pixel_bbox
          \<lparr>item_prov = None,
           item_bbox = Some \<lparr>bb_l = Fin (of_int 95), bb_t = Fin (of_int 10),
                             bb_r = Fin (of_int 200), bb_b = Fin (of_int 20),
                             bb_coord_origin = OriginEnum TOPLEFT\<rparr>\<rparr>
          (Fin (of_int 595)) (Fin (of_int 842)) 595 842 = Inr (x1, y1, x2, y2)
        \<and> (x1 = 95 \<or> x1 = 95 - 1) \<and> (y1 = 10 \<or> y1 = 10 - 1)
        \<and> (x2 = 200 \<or> x2 = 200 - 1) \<and> (y2 = 20 \<or> y2 = 20 - 1)"
    using get_pixel_bbox_axis_rules
      [where it' = "\<lparr>item_prov = None,
           item_bbox = Some \<lparr>bb_l = Fin (of_int 95), bb_t = Fin (of_int 10),
                             bb_r = Fin (of_int 200), bb_b = Fin (of_int 20),
                             bb_coord_origin = OriginEnum TOPLEFT\<rparr>\<rparr>"
         and xl = 95 and xt = 10 and xr = 200 and xb = 20 and co' = "OriginEnum TOPLEFT"
         and w = 595 and h = 842, THEN conjunct2]
    unfolding topleft_item by simp
  show ?thesis using o1 g1 g2 by (intro conjI)
qed

text \<open>
  C10. An item whose first provenance record has no \<open>coord_origin\<close> attribute is converted
  as a BOTTOMLEFT box; an item without a provenance list is converted from its own \<open>bbox\<close>
  field under that box's declared origin.
\<close>

theorem get_pixel_bbox_default_origin:
  "(item_prov it = Some (p # ps) \<and> prov_coord_origin p = None \<longrightarrow>
      get_pixel_bbox it pdf_w pdf_h img_w img_h
        = convert_bbox (prov_bbox p) (origin_name BOTTOMLEFT) pdf_w pdf_h img_w img_h)
   \<and> (item_prov it = None \<and> item_bbox it = Some bb \<longrightarrow>
      get_pixel_bbox it pdf_w pdf_h img_w img_h
        = convert_bbox (Some bb) (origin_value (bb_coord_origin bb)) pdf_w pdf_h img_w img_h)"
  using get_pixel_bbox_prov[of it p ps] get_pixel_bbox_no_prov[of it bb]
  by simp

theorem get_pixel_bbox_default_origin_witness:
  "get_pixel_bbox
     \<lparr>item_prov = Some [\<lparr>page_no = 1,
         prov_bbox = Some \<lparr>bb_l = Fin 0, bb_t = Fin 0, bb_r = Fin 100, bb_b = Fin 50,
                           bb_coord_origin = OriginEnum TOPLEFT\<rparr>,
         prov_coord_origin = None\<rparr>], item_bbox = None\<rparr>
     (Fin 200) (Fin 100) 200 100 = Inr (0, 100, 100, 50)
   \<and> get_pixel_bbox
     \<lparr>item_prov = None,
      item_bbox = Some \<lparr>bb_l = Fin 0, bb_t = Fin 0, bb_r = Fin 100, bb_b = Fin 50,
                        bb_coord_origin = OriginEnum TOPLEFT\<rparr>\<rparr>
     (Fin 200) (Fin 100) 200 100 = Inr (0, 0, 100, 50)"
proof -
  have c1: "convert_bbox (Some \<lparr>bb_l = Fin 0, bb_t = Fin 0, bb_r = Fin 100, bb_b = Fin 50,
                           bb_coord_origin = OriginEnum TOPLEFT\<rparr>) (origin_name BOTTOMLEFT)
              (Fin 200) (Fin 100) 200 100 = Inr (0, 100, 100, 50)"
    by (subst convert_bbox_spec)
       (simp_all add: toPixelBBox_def rnd_small_ints scale_0_200 scale_100_200 scale_100_100 scale_50_100)
  have c2: "convert_bbox (Some \<lparr>bb_l = Fin 0, bb_t = Fin 0, bb_r = Fin 100, bb_b = Fin 50,
                           bb_coord_origin = OriginEnum TOPLEFT\<rparr>) (origin_name TOPLEFT)
              (Fin 200) (Fin 100) 200 100 = Inr (0, 0, 100, 50)"
    by (subst convert_bbox_spec)
       (simp_all add: toPixelBBox_def scale_0_200 scale_100_200 scale_0_100 scale_50_100)
  show ?thesis
    using get_pixel_bbox_default_origin
      [where it = "\<lparr>item_prov = Some [\<lparr>page_no = 1,
         prov_bbox = Some \<lparr>bb_l = Fin 0, bb_t = Fin 0, bb_r = Fin 100, bb_b = Fin 50,
                           bb_coord_origin = OriginEnum TOPLEFT\<rparr>,
         prov_coord_origin = None\<rparr>], item_bbox = None\<rparr>"
         and p = "\<lparr>page_no = 1,
         prov_bbox = Some \<lparr>bb_l = Fin 0, bb_t = Fin 0, bb_r = Fin 100, bb_b = Fin 50,
                           bb_coord_origin = OriginEnum TOPLEFT\<rparr>,
         prov_coord_origin = None\<rparr>" and ps = "[]"
         and pdf_w = "Fin 200" and pdf_h = "Fin 100" and img_w = 200 and img_h = 100]
      get_pixel_bbox_default_origin
      [where it = "\<lparr>item_prov = None,
      item_bbox = Some \<lparr>bb_l = Fin 0, bb_t = Fin 0, bb_r = Fin 100, bb_b = Fin 50,
                        bb_coord_origin = OriginEnum TOPLEFT\<rparr>\<rparr>"
         and bb = "\<lparr>bb_l = Fin 0, bb_t = Fin 0, bb_r = Fin 100, bb_b = Fin 50,
                        bb_coord_origin = OriginEnum TOPLEFT\<rparr>"
         and pdf_w = "Fin 200" and pdf_h = "Fin 100" and img_w = 200 and img_h = 100]
    using c1 c2 by (simp del: origin_name.simps)
qed

section \<open>update_cell_bbox\<close>

lemma int_plus_float_fin:
  assumes "\<bar>rat_of_int t\<bar> \<le> 2 ^ 300" and "\<bar>c\<bar> \<le> 2 ^ 300"
  shows "int_plus_float t (Fin c) = Inr (Fin (offset_px t c))"
    and "\<bar>offset_px t c\<bar> \<le> 2 ^ 301"
proof -
  have f: "float_of_int t = Inr (Fin (rnd (of_int t)))"
    using assms(1) by (rule float_of_int_fin) simp
  have "\<bar>rnd (rat_of_int t)\<bar> \<le> 2 ^ 300" using assms(1) by (rule rnd_abs_le)
  then have "\<bar>rnd (rat_of_int t) + c\<bar> \<le> 2 ^ Suc 300" using assms(2) by (rule abs_add_le)
  then have s: "\<bar>rnd (rat_of_int t) + c\<bar> \<le> 2 ^ 301" by simp
  then show "\<bar>offset_px t c\<bar> \<le> 2 ^ 301" unfolding offset_px_def by (rule rnd_abs_le)
  have "round64 (rnd (rat_of_int t) + c) = Fin (rnd (rnd (rat_of_int t) + c))"
    using s by (rule round64_fin) simp
  then show "int_plus_float t (Fin c) = Inr (Fin (offset_px t c))"
    by (simp add: int_plus_float_def offset_px_def bind_r_def f)
qed

lemma px_to_pdf_fin:
  assumes "0 < img" and "\<bar>rat_of_int img\<bar> \<le> 2 ^ 300" and "\<bar>px\<bar> \<le> 2 ^ 301"
    and "\<bar>pdf\<bar> \<le> 2 ^ 300"
  shows "px_to_pdf (Fin px) img (Fin pdf) = Inr (Fin (inverse_topleft px img pdf))"
    and "\<bar>inverse_topleft px img pdf\<bar> \<le> 2 ^ 601"
proof -
  define i where "i = rnd (rat_of_int img)"
  have f: "float_of_int img = Inr (Fin i)"
    unfolding i_def using assms(2) by (rule float_of_int_fin) simp
  have "1 \<le> rat_of_int img" using assms(1) by simp
  then have i1: "1 \<le> i" unfolding i_def by (rule rnd_ge_1)
  then have nz: "i \<noteq> 0" by simp
  have "1 / 2 ^ 0 \<le> \<bar>i\<bar>" using i1 by simp
  with assms(3) have q: "\<bar>px / i\<bar> \<le> 2 ^ (301 + 0)" by (rule abs_div_le)
  define a where "a = rnd (px / i)"
  have a: "\<bar>a\<bar> \<le> 2 ^ (301 + 0)" unfolding a_def using q by (rule rnd_abs_le)
  have 1: "round64 (px / i) = Fin a" unfolding a_def using q by (rule round64_fin) simp
  have m: "\<bar>a * pdf\<bar> \<le> 2 ^ (301 + 0 + 300)" using a assms(4) by (rule abs_mult_le)
  have 2: "round64 (a * pdf) = Fin (rnd (a * pdf))" using m by (rule round64_fin) simp
  have e: "inverse_topleft px img pdf = rnd (a * pdf)"
    by (simp add: inverse_topleft_def a_def i_def)
  show "px_to_pdf (Fin px) img (Fin pdf) = Inr (Fin (inverse_topleft px img pdf))"
    by (simp add: px_to_pdf_def bind_r_def f nz 1 2 e)
  show "\<bar>inverse_topleft px img pdf\<bar> \<le> 2 ^ 601"
    unfolding e using m rnd_abs_le[of "a * pdf" 601] by simp
qed

lemma px_to_pdf_zero: "px_to_pdf x 0 pdf = Inl ZeroDivisionError"
proof -
  have "float_of_int 0 = Inr (Fin 0)"
    using max_float_pos by (simp add: float_of_int_def rnd_0)
  then show ?thesis by (simp add: px_to_pdf_def bind_r_def)
qed

lemma shrink_fin:
  assumes "\<bar>n\<bar> \<le> 2 ^ 601"
  shows "fadd (Fin n) (Fin 4) = Fin (rnd (n + 4))" and "fsub (Fin n) (Fin 4) = Fin (rnd (n - 4))"
proof -
  have 4: "\<bar>4::rat\<bar> \<le> 2 ^ 601"
  proof -
    have "(2::rat) ^ 2 \<le> 2 ^ 601" by (intro power_increasing) simp_all
    then show ?thesis by simp
  qed
  have "\<bar>n + 4\<bar> \<le> 2 ^ Suc 601" using assms 4 by (rule abs_add_le)
  then have "round64 (n + 4) = Fin (rnd (n + 4))" by (rule round64_fin) simp
  then show "fadd (Fin n) (Fin 4) = Fin (rnd (n + 4))" by simp
  have "\<bar>n - 4\<bar> \<le> 2 ^ Suc 601" using assms 4 by (rule abs_add_le)
  then have "round64 (n - 4) = Fin (rnd (n - 4))" by (rule round64_fin) simp
  then show "fsub (Fin n) (Fin 4) = Fin (rnd (n - 4))" by simp
qed

lemma update_cell_bbox_fin:
  assumes "\<bar>cx1\<bar> \<le> 2 ^ 300" and "\<bar>cy1\<bar> \<le> 2 ^ 300" and "\<bar>cx2\<bar> \<le> 2 ^ 300" and "\<bar>cy2\<bar> \<le> 2 ^ 300"
    and "\<bar>rat_of_int tx1\<bar> \<le> 2 ^ 300" and "\<bar>rat_of_int ty1\<bar> \<le> 2 ^ 300"
    and "0 < img_w" and "\<bar>rat_of_int img_w\<bar> \<le> 2 ^ 300"
    and "0 < img_h" and "\<bar>rat_of_int img_h\<bar> \<le> 2 ^ 300"
    and "\<bar>pdf_w\<bar> \<le> 2 ^ 300" and "\<bar>pdf_h\<bar> \<le> 2 ^ 300"
  shows "update_cell_bbox cell (Fin cx1, Fin cy1, Fin cx2, Fin cy2) (tx1, ty1, tx2, ty2)
           (img_w, img_h) (Fin pdf_w) (Fin pdf_h)
         = Inr (cell\<lparr>cell_bbox := Some
             \<lparr>bb_l = Fin (rnd (inverse_topleft (offset_px tx1 cx1) img_w pdf_w + 4)),
              bb_t = Fin (rnd (inverse_topleft (offset_px ty1 cy1) img_h pdf_h + 4)),
              bb_r = Fin (rnd (inverse_topleft (offset_px tx1 cx2) img_w pdf_w - 4)),
              bb_b = Fin (rnd (inverse_topleft (offset_px ty1 cy2) img_h pdf_h - 4)),
              bb_coord_origin = OriginEnum TOPLEFT\<rparr>\<rparr>)"
proof -
  note o1 = int_plus_float_fin[OF assms(5,1)] and o2 = int_plus_float_fin[OF assms(6,2)]
    and o3 = int_plus_float_fin[OF assms(5,3)] and o4 = int_plus_float_fin[OF assms(6,4)]
  note p1 = px_to_pdf_fin[OF assms(7,8) o1(2) assms(11)]
    and p2 = px_to_pdf_fin[OF assms(9,10) o2(2) assms(12)]
    and p3 = px_to_pdf_fin[OF assms(7,8) o3(2) assms(11)]
    and p4 = px_to_pdf_fin[OF assms(9,10) o4(2) assms(12)]
  show ?thesis
    by (simp only: update_cell_bbox_def prod.case bind_r_def sum.case Let_def
          o1(1) o2(1) o3(1) o4(1) p1(1) p2(1) p3(1) p4(1)
          shrink_fin[OF p1(2)] shrink_fin[OF p2(2)] shrink_fin[OF p3(2)] shrink_fin[OF p4(2)])
qed

lemma update_cell_bbox_zero:
  assumes "\<bar>cx1\<bar> \<le> 2 ^ 300" and "\<bar>cy1\<bar> \<le> 2 ^ 300" and "\<bar>cx2\<bar> \<le> 2 ^ 300" and "\<bar>cy2\<bar> \<le> 2 ^ 300"
    and "\<bar>rat_of_int tx1\<bar> \<le> 2 ^ 300" and "\<bar>rat_of_int ty1\<bar> \<le> 2 ^ 300"
    and "0 \<le> img_w" and "\<bar>rat_of_int img_w\<bar> \<le> 2 ^ 300"
    and "\<bar>pdf_w\<bar> \<le> 2 ^ 300"
    and "img_w = 0 \<or> img_h = 0"
  shows "update_cell_bbox cell (Fin cx1, Fin cy1, Fin cx2, Fin cy2) (tx1, ty1, tx2, ty2)
           (img_w, img_h) (Fin pdf_w) (Fin pdf_h) = Inl ZeroDivisionError"
proof -
  note o1 = int_plus_float_fin[OF assms(5,1)] and o2 = int_plus_float_fin[OF assms(6,2)]
    and o3 = int_plus_float_fin[OF assms(5,3)] and o4 = int_plus_float_fin[OF assms(6,4)]
  show ?thesis
  proof (cases "img_w = 0")
    case True
    then show ?thesis
      by (simp only: update_cell_bbox_def prod.case bind_r_def sum.case
            o1(1) o2(1) o3(1) o4(1) px_to_pdf_zero)
  next
    case False
    with assms(7,10) have w: "0 < img_w" and h: "img_h = 0" by simp_all
    note p1 = px_to_pdf_fin[OF w assms(8) o1(2) assms(9)]
    show ?thesis
      by (simp only: update_cell_bbox_def prod.case bind_r_def sum.case
            o1(1) o2(1) o3(1) o4(1) p1(1) h px_to_pdf_zero)
  qed
qed

text \<open>
  C7 (amended). For finite cell edges, table offsets, image sizes and page sizes of
  magnitude at most \<open>2^300\<close>, with \<open>(nl, nt, nr, nb)\<close> the naively inverse-mapped box:
  when both image sizes are positive, \<open>update_cell_bbox\<close> writes back the box with edges
  \<open>nl + 4\<close>, \<open>nt + 4\<close>, \<open>nr - 4\<close>, \<open>nb - 4\<close>, each rounded to double precision, and
  origin TOPLEFT, whatever the cell held before; when an image size is zero it raises
  \<open>ZeroDivisionError\<close>. A written edge differs from the exact sum or difference by at most
  the rounding error of one float operation.
\<close>

theorem update_cell_bbox_margin:
  assumes "\<bar>cx1\<bar> \<le> 2 ^ 300" and "\<bar>cy1\<bar> \<le> 2 ^ 300" and "\<bar>cx2\<bar> \<le> 2 ^ 300" and "\<bar>cy2\<bar> \<le> 2 ^ 300"
    and "\<bar>tx1\<bar> \<le> 2 ^ 300" and "\<bar>ty1\<bar> \<le> 2 ^ 300"
    and "0 \<le> img_w" and "img_w \<le> 2 ^ 300" and "0 \<le> img_h" and "img_h \<le> 2 ^ 300"
    and "\<bar>pdf_w\<bar> \<le> 2 ^ 300" and "\<bar>pdf_h\<bar> \<le> 2 ^ 300"
    and "naive_inverse_box (cx1, cy1, cx2, cy2) (tx1, ty1) img_w img_h pdf_w pdf_h
           = (nl, nt, nr, nb)"
  shows "(0 < img_w \<and> 0 < img_h \<longrightarrow>
            update_cell_bbox cell (Fin cx1, Fin cy1, Fin cx2, Fin cy2) (tx1, ty1, tx2, ty2)
              (img_w, img_h) (Fin pdf_w) (Fin pdf_h)
            = Inr (cell\<lparr>cell_bbox := Some
                \<lparr>bb_l = Fin (rnd (nl + 4)), bb_t = Fin (rnd (nt + 4)),
                 bb_r = Fin (rnd (nr - 4)), bb_b = Fin (rnd (nb - 4)),
                 bb_coord_origin = OriginEnum TOPLEFT\<rparr>\<rparr>))
         \<and> (img_w = 0 \<or> img_h = 0 \<longrightarrow>
            update_cell_bbox cell (Fin cx1, Fin cy1, Fin cx2, Fin cy2) (tx1, ty1, tx2, ty2)
              (img_w, img_h) (Fin pdf_w) (Fin pdf_h) = Inl ZeroDivisionError)
         \<and> \<bar>rnd (nl + 4) - (nl + 4)\<bar> \<le> \<bar>nl + 4\<bar> * 2 powi (- 53) + 2 powi (- 1075)
         \<and> \<bar>rnd (nt + 4) - (nt + 4)\<bar> \<le> \<bar>nt + 4\<bar> * 2 powi (- 53) + 2 powi (- 1075)
         \<and> \<bar>rnd (nr - 4) - (nr - 4)\<bar> \<le> \<bar>nr - 4\<bar> * 2 powi (- 53) + 2 powi (- 1075)
         \<and> \<bar>rnd (nb - 4) - (nb - 4)\<bar> \<le> \<bar>nb - 4\<bar> * 2 powi (- 53) + 2 powi (- 1075)"
proof -
  have t: "\<bar>rat_of_int tx1\<bar> \<le> 2 ^ 300" "\<bar>rat_of_int ty1\<bar> \<le> 2 ^ 300"
  proof -
    have "rat_of_int \<bar>tx1\<bar> \<le> of_int (2 ^ 300)" using assms(5) by (simp only: of_int_le_iff)
    then show "\<bar>rat_of_int tx1\<bar> \<le> 2 ^ 300" by simp
    have "rat_of_int \<bar>ty1\<bar> \<le> of_int (2 ^ 300)" using assms(6) by (simp only: of_int_le_iff)
    then show "\<bar>rat_of_int ty1\<bar> \<le> 2 ^ 300" by simp
  qed
  have i: "\<bar>rat_of_int img_w\<bar> \<le> 2 ^ 300" "\<bar>rat_of_int img_h\<bar> \<le> 2 ^ 300"
    using assms(7-10) by (simp_all only: int_bound_le)
  have n: "nl = inverse_topleft (offset_px tx1 cx1) img_w pdf_w"
    "nt = inverse_topleft (offset_px ty1 cy1) img_h pdf_h"
    "nr = inverse_topleft (offset_px tx1 cx2) img_w pdf_w"
    "nb = inverse_topleft (offset_px ty1 cy2) img_h pdf_h"
    using assms(13) by (simp_all add: naive_inverse_box_def)
  have a: "update_cell_bbox cell (Fin cx1, Fin cy1, Fin cx2, Fin cy2) (tx1, ty1, tx2, ty2)
              (img_w, img_h) (Fin pdf_w) (Fin pdf_h)
            = Inr (cell\<lparr>cell_bbox := Some
                \<lparr>bb_l = Fin (rnd (nl + 4)), bb_t = Fin (rnd (nt + 4)),
                 bb_r = Fin (rnd (nr - 4)), bb_b = Fin (rnd (nb - 4)),
                 bb_coord_origin = OriginEnum TOPLEFT\<rparr>\<rparr>)"
    if "0 < img_w \<and> 0 < img_h"
    unfolding n using that
    by (intro update_cell_bbox_fin assms(1-4) t i assms(11,12)) simp_all
  have z: "update_cell_bbox cell (Fin cx1, Fin cy1, Fin cx2, Fin cy2) (tx1, ty1, tx2, ty2)
              (img_w, img_h) (Fin pdf_w) (Fin pdf_h) = Inl ZeroDivisionError"
    if "img_w = 0 \<or> img_h = 0"
    using that by (intro update_cell_bbox_zero assms(1-4) t i(1) assms(7,11))
  show ?thesis using a z by (simp only: rnd_err simp_thms) blast
qed

lemma offsets_example:
  "offset_px 50 10 = 60" "offset_px 60 20 = 80" "offset_px 50 110 = 160" "offset_px 60 70 = 130"
  using rnd_of_int[of 50] rnd_of_int[of 60]
  by (simp_all add: offset_px_def rnd_small_ints)

lemma naive_example:
  "naive_inverse_box (10, 20, 110, 70) (50, 60) 1224 1584 612 792 = (30, 40, 80, 65)"
  by (simp add: naive_inverse_box_def offsets_example inv_l inv_t inv_r inv_b)

lemma rnd_2_60:
  "rnd 1152921504606846976 = 1152921504606846976"
  "rnd 1152921504606846980 = 1152921504606846976"
  "rnd 1152921504606846972 = 1152921504606846976"
proof -
  show "rnd 1152921504606846976 = 1152921504606846976"
    by (rule rnd_near[where k = "60" and m = "4503599627370496", THEN trans]) (simp_all add: power_int_minus)
  show "rnd 1152921504606846980 = 1152921504606846976"
    by (rule rnd_near[where k = "60" and m = "4503599627370496", THEN trans]) (simp_all add: power_int_minus)
  show "rnd 1152921504606846972 = 1152921504606846976"
    by (rule rnd_near[where k = "59" and m = "9007199254740992", THEN trans]) (simp_all add: power_int_minus)
qed

lemma naive_large:
  "naive_inverse_box (1, 1, 1, 1) (0, 0) 1 1 1152921504606846976 1152921504606846976
     = (1152921504606846976, 1152921504606846976, 1152921504606846976, 1152921504606846976)"
  by (simp add: naive_inverse_box_def offset_px_def inverse_topleft_def rnd_0 rnd_1 rnd_2_60)

text \<open>
  C7 as stated fails. On a page \<open>2^60\<close> units wide and high rendered on one pixel, the
  naively inverse-mapped box of the cell \<open>(1, 1, 1, 1)\<close> has every edge at \<open>2^60\<close>, where
  neighbouring floats are 256 apart: adding or subtracting 4 changes nothing, and the
  written box is the naive box, not that box shrunk by 4. And with an image of width 0
  nothing is written: the division raises.
\<close>

theorem update_cell_bbox_margin_absorbed:
  "naive_inverse_box (1, 1, 1, 1) (0, 0) 1 1 1152921504606846976 1152921504606846976
     = (1152921504606846976, 1152921504606846976, 1152921504606846976, 1152921504606846976)
   \<and> update_cell_bbox
       \<lparr>cell_text = [], cell_bbox = None, start_row_offset_idx = 0, start_col_offset_idx = 0\<rparr>
       (Fin 1, Fin 1, Fin 1, Fin 1) (0, 0, 1, 1) (1, 1)
       (Fin 1152921504606846976) (Fin 1152921504606846976)
     = Inr \<lparr>cell_text = [],
            cell_bbox = Some \<lparr>bb_l = Fin 1152921504606846976, bb_t = Fin 1152921504606846976,
                               bb_r = Fin 1152921504606846976, bb_b = Fin 1152921504606846976,
                               bb_coord_origin = OriginEnum TOPLEFT\<rparr>,
            start_row_offset_idx = 0, start_col_offset_idx = 0\<rparr>
   \<and> update_cell_bbox
       \<lparr>cell_text = [], cell_bbox = None, start_row_offset_idx = 0, start_col_offset_idx = 0\<rparr>
       (Fin 10, Fin 20, Fin 110, Fin 70) (50, 60, 250, 160) (0, 1584) (Fin 612) (Fin 792)
     = Inl ZeroDivisionError"
proof -
  have n: "inverse_topleft (offset_px 0 1) 1 1152921504606846976 = 1152921504606846976"
    by (simp add: offset_px_def inverse_topleft_def rnd_0 rnd_1 rnd_2_60)
  have a: "update_cell_bbox
       \<lparr>cell_text = [], cell_bbox = None, start_row_offset_idx = 0, start_col_offset_idx = 0\<rparr>
       (Fin 1, Fin 1, Fin 1, Fin 1) (0, 0, 1, 1) (1, 1)
       (Fin 1152921504606846976) (Fin 1152921504606846976)
     = Inr \<lparr>cell_text = [],
            cell_bbox = Some \<lparr>bb_l = Fin 1152921504606846976, bb_t = Fin 1152921504606846976,
                               bb_r = Fin 1152921504606846976, bb_b = Fin 1152921504606846976,
                               bb_coord_origin = OriginEnum TOPLEFT\<rparr>,
            start_row_offset_idx = 0, start_col_offset_idx = 0\<rparr>"
    by (subst update_cell_bbox_fin) (simp_all add: n rnd_2_60)
  have z: "update_cell_bbox
       \<lparr>cell_text = [], cell_bbox = None, start_row_offset_idx = 0, start_col_offset_idx = 0\<rparr>
       (Fin 10, Fin 20, Fin 110, Fin 70) (50, 60, 250, 160) (0, 1584) (Fin 612) (Fin 792)
     = Inl ZeroDivisionError"
    by (rule update_cell_bbox_zero) simp_all
  show ?thesis using naive_large a z by (intro conjI)
qed

theorem update_cell_bbox_margin_witness:
  "naive_inverse_box (10, 20, 110, 70) (50, 60) 1224 1584 612 792 = (30, 40, 80, 65)
   \<and> update_cell_bbox
       \<lparr>cell_text = [], cell_bbox = Some \<lparr>bb_l = Fin 1, bb_t = Fin 2, bb_r = Fin 3, bb_b = Fin 4,
                                            bb_coord_origin = OriginEnum BOTTOMLEFT\<rparr>,
        start_row_offset_idx = 0, start_col_offset_idx = 0\<rparr>
       (Fin 10, Fin 20, Fin 110, Fin 70) (50, 60, 250, 160) (1224, 1584) (Fin 612) (Fin 792)
     = Inr \<lparr>cell_text = [],
            cell_bbox = Some \<lparr>bb_l = Fin 34, bb_t = Fin 44, bb_r = Fin 76, bb_b = Fin 61,
                               bb_coord_origin = OriginEnum TOPLEFT\<rparr>,
            start_row_offset_idx = 0, start_col_offset_idx = 0\<rparr>
   \<and> update_cell_bbox
       \<lparr>cell_text = [], cell_bbox = None, start_row_offset_idx = 0, start_col_offset_idx = 0\<rparr>
       (Fin 10, Fin 20, Fin 110, Fin 70) (50, 60, 250, 160) (1224, 0) (Fin 612) (Fin 792)
     = Inl ZeroDivisionError"
proof -
  have a: "update_cell_bbox
       \<lparr>cell_text = [], cell_bbox = Some \<lparr>bb_l = Fin 1, bb_t = Fin 2, bb_r = Fin 3, bb_b = Fin 4,
                                            bb_coord_origin = OriginEnum BOTTOMLEFT\<rparr>,
        start_row_offset_idx = 0, start_col_offset_idx = 0\<rparr>
       (Fin 10, Fin 20, Fin 110, Fin 70) (50, 60, 250, 160) (1224, 1584) (Fin 612) (Fin 792)
     = Inr \<lparr>cell_text = [],
            cell_bbox = Some \<lparr>bb_l = Fin 34, bb_t = Fin 44, bb_r = Fin 76, bb_b = Fin 61,
                               bb_coord_origin = OriginEnum TOPLEFT\<rparr>,
            start_row_offset_idx = 0, start_col_offset_idx = 0\<rparr>"
    using update_cell_bbox_margin
      [where ?cx1.0 = 10 and ?cy1.0 = 20 and ?cx2.0 = 110 and ?cy2.0 = 70 and ?tx1.0 = 50 and ?ty1.0 = 60
         and ?tx2.0 = 250 and ?ty2.0 = 160 and img_w = 1224 and img_h = 1584
         and pdf_w = 612 and pdf_h = 792 and nl = 30 and nt = 40 and nr = 80 and nb = 65
         and cell = "\<lparr>cell_text = [],
           cell_bbox = Some \<lparr>bb_l = Fin 1, bb_t = Fin 2, bb_r = Fin 3, bb_b = Fin 4,
                              bb_coord_origin = OriginEnum BOTTOMLEFT\<rparr>,
           start_row_offset_idx = 0, start_col_offset_idx = 0\<rparr>",
       OF _ _ _ _ _ _ _ _ _ _ _ _ naive_example, THEN conjunct1]
    by (simp add: rnd_small_ints)
  have z: "update_cell_bbox
       \<lparr>cell_text = [], cell_bbox = None, start_row_offset_idx = 0, start_col_offset_idx = 0\<rparr>
       (Fin 10, Fin 20, Fin 110, Fin 70) (50, 60, 250, 160) (1224, 0) (Fin 612) (Fin 792)
     = Inl ZeroDivisionError"
  proof -
    obtain nl nt nr nb where
      n: "naive_inverse_box (10, 20, 110, 70) (50, 60) 1224 0 612 792 = (nl, nt, nr, nb)"
      by (cases "naive_inverse_box (10, 20, 110, 70) (50, 60) 1224 0 612 792") auto
    show ?thesis
      using update_cell_bbox_margin
        [where ?cx1.0 = 10 and ?cy1.0 = 20 and ?cx2.0 = 110 and ?cy2.0 = 70 and ?tx1.0 = 50 and ?ty1.0 = 60
           and ?tx2.0 = 250 and ?ty2.0 = 160 and img_w = 1224 and img_h = 0
           and pdf_w = 612 and pdf_h = 792
           and cell = "\<lparr>cell_text = [], cell_bbox = None, start_row_offset_idx = 0,
                         start_col_offset_idx = 0\<rparr>",
         OF _ _ _ _ _ _ _ _ _ _ _ _ n, THEN conjunct2, THEN conjunct1]
      by simp
  qed
  show ?thesis using naive_example a z by (intro conjI)
qed

section \<open>The text quality analyzer\<close>

lemma py_strip_empty_iff: "py_strip U s = [] \<longleftrightarrow> (\<forall>c\<in>set s. ucd_isspace U c)"
proof
  assume "py_strip U s = []"
  then have "dropWhile (ucd_isspace U) (rev (dropWhile (ucd_isspace U) s)) = []"
    by (simp add: py_strip_def)
  then have "\<forall>c\<in>set (rev (dropWhile (ucd_isspace U) s)). ucd_isspace U c"
    by (simp only: dropWhile_eq_Nil_conv)
  then have a: "\<forall>c\<in>set (dropWhile (ucd_isspace U) s). ucd_isspace U c" by simp
  have "dropWhile (ucd_isspace U) s = []"
  proof (cases "dropWhile (ucd_isspace U) s")
    case Nil then show ?thesis .
  next
    case (Cons x xs)
    then have "\<not> ucd_isspace U x" using hd_dropWhile[of "ucd_isspace U" s] by simp
    moreover have "ucd_isspace U x" using a Cons by simp
    ultimately show ?thesis by simp
  qed
  then show "\<forall>c\<in>set s. ucd_isspace U c" by (simp only: dropWhile_eq_Nil_conv)
next
  assume "\<forall>c\<in>set s. ucd_isspace U c"
  then have d: "dropWhile (ucd_isspace U) s = []" by (simp only: dropWhile_eq_Nil_conv)
  show "py_strip U s = []" unfolding py_strip_def d by simp
qed

lemma is_valid_non_ascii_iff:
  "is_valid_non_ascii U text \<longleftrightarrow> (\<forall>c\<in>set text. 127 < c \<longrightarrow> accepted_script U c)"
  by (induction "text") (auto simp: accepted_script_def split: option.splits)

lemma has_encoding_issues_iff:
  "has_encoding_issues U text \<longleftrightarrow>
     (\<exists>c\<in>set text. c \<in> set error_chars) \<or> (\<exists>c\<in>set text. 127 < c \<and> \<not> accepted_script U c)"
  unfolding has_encoding_issues_def is_valid_non_ascii_iff list_ex_iff by auto

lemma needs_formula_enhancement_iff:
  "needs_formula_enhancement U text \<longleftrightarrow>
     (\<exists>c\<in>set text. ucd_isdigit U c) \<and> (\<exists>c\<in>set text. latin_letter U c)"
  unfolding needs_formula_enhancement_def Let_def list_ex_iff latin_letter_def
  by (auto split: option.splits)

lemma blank_quality:
  "text = [] \<or> (\<forall>c\<in>set text. ucd_isspace U c) \<Longrightarrow>
   needs_ocr_enhancement U text cf ce = \<lparr>encoding = False, formula = False\<rparr>"
  by (auto simp: needs_ocr_enhancement_def py_strip_empty_iff)

lemma nonblank_quality:
  "\<not> (\<forall>c\<in>set text. ucd_isspace U c) \<Longrightarrow>
   needs_ocr_enhancement U text cf ce =
     \<lparr>encoding = (ce \<and> has_encoding_issues U text), formula = (cf \<and> needs_formula_enhancement U text)\<rparr>"
  by (auto simp: needs_ocr_enhancement_def py_strip_empty_iff)

lemma excerpt_y_eq_x2:
  "needs_ocr_enhancement ucd_excerpt [0x79, 0x3D, 0x78, 0x32] True False
     = \<lparr>encoding = False, formula = True\<rparr>"
  by (simp add: needs_ocr_enhancement_def py_strip_def needs_formula_enhancement_def
        ucd_excerpt_def ucd_rows_def)

lemma excerpt_arabic:
  "needs_ocr_enhancement ucd_excerpt [0x646, 0x635, 0x20, 0x639, 0x631, 0x628, 0x64A] True False
     = \<lparr>encoding = False, formula = False\<rparr>"
  by (simp add: needs_ocr_enhancement_def py_strip_def needs_formula_enhancement_def
        ucd_excerpt_def ucd_rows_def)

text \<open>
  C5 (amended). With \<open>checkFormula\<close> set, the formula flag holds exactly when the text
  contains a character for which \<open>str.isdigit\<close> holds and an alphabetic character whose
  Unicode name contains LATIN (no whitespace character being a digit). \<open>y=x2\<close> yields
  \<open>formula = True\<close>, the Arabic example and every text without a Latin letter yield
  \<open>formula = False\<close>, and so does every empty or whitespace-only text.
\<close>

theorem formula_trigger:
  "((\<forall>c. ucd_isspace U c \<longrightarrow> \<not> ucd_isdigit U c) \<longrightarrow>
      (formula (needs_ocr_enhancement U text True ce) \<longleftrightarrow>
         (\<exists>c\<in>set text. ucd_isdigit U c) \<and> (\<exists>c\<in>set text. latin_letter U c)))
   \<and> formula (needs_ocr_enhancement ucd_excerpt [0x79, 0x3D, 0x78, 0x32] True False)
   \<and> \<not> formula (needs_ocr_enhancement ucd_excerpt
                   [0x646, 0x635, 0x20, 0x639, 0x631, 0x628, 0x64A] True False)
   \<and> ((\<forall>c\<in>set text. \<not> latin_letter U c) \<longrightarrow> \<not> formula (needs_ocr_enhancement U text cf ce))
   \<and> (text = [] \<or> (\<forall>c\<in>set text. ucd_isspace U c) \<longrightarrow>
        \<not> formula (needs_ocr_enhancement U text cf ce))"
proof (intro conjI impI)
  assume ws: "\<forall>c. ucd_isspace U c \<longrightarrow> \<not> ucd_isdigit U c"
  show "formula (needs_ocr_enhancement U text True ce) \<longleftrightarrow>
         (\<exists>c\<in>set text. ucd_isdigit U c) \<and> (\<exists>c\<in>set text. latin_letter U c)"
  proof (cases "\<forall>c\<in>set text. ucd_isspace U c")
    case True
    then have "\<not> (\<exists>c\<in>set text. ucd_isdigit U c)" using ws by blast
    then show ?thesis using True by (simp add: blank_quality)
  next
    case False
    then show ?thesis by (simp add: nonblank_quality needs_formula_enhancement_iff)
  qed
next
  show "formula (needs_ocr_enhancement ucd_excerpt [0x79, 0x3D, 0x78, 0x32] True False)"
    by (simp add: excerpt_y_eq_x2)
  show "\<not> formula (needs_ocr_enhancement ucd_excerpt
                   [0x646, 0x635, 0x20, 0x639, 0x631, 0x628, 0x64A] True False)"
    by (simp add: excerpt_arabic)
next
  assume "\<forall>c\<in>set text. \<not> latin_letter U c"
  then show "\<not> formula (needs_ocr_enhancement U text cf ce)"
    by (cases "\<forall>c\<in>set text. ucd_isspace U c")
       (simp_all add: blank_quality nonblank_quality needs_formula_enhancement_iff)
next
  assume "text = [] \<or> (\<forall>c\<in>set text. ucd_isspace U c)"
  then show "\<not> formula (needs_ocr_enhancement U text cf ce)"
    by (simp add: blank_quality)
qed

text \<open>
  C5 as stated fails on \<open>x\<close> followed by SUPERSCRIPT TWO: the text holds no decimal digit,
  but \<open>str.isdigit\<close> accepts the superscript, and the formula flag is set.
\<close>

theorem formula_without_decimal_digit:
  "formula (needs_ocr_enhancement ucd_excerpt [0x78, 0xB2] True False)
   \<and> \<not> ucd_isdecimal ucd_excerpt 0x78 \<and> \<not> ucd_isdecimal ucd_excerpt 0xB2"
  by (simp add: needs_ocr_enhancement_def py_strip_def needs_formula_enhancement_def
        ucd_excerpt_def ucd_rows_def)

theorem formula_trigger_witness:
  "formula (needs_ocr_enhancement ucd_excerpt [0x78, 0xB2] True False)
   \<and> list_all (\<lambda>c. \<not> latin_letter ucd_excerpt c) [0x639, 0x32]
   \<and> \<not> formula (needs_ocr_enhancement ucd_excerpt [0x639, 0x32] True False)
   \<and> list_all (ucd_isspace ucd_excerpt) [0x20, 0x20]
   \<and> \<not> formula (needs_ocr_enhancement ucd_excerpt [0x20, 0x20] True False)"
proof -
  have ws: "\<forall>c. ucd_isspace ucd_excerpt c \<longrightarrow> \<not> ucd_isdigit ucd_excerpt c"
    by (simp add: ucd_excerpt_def ucd_rows_def)
  have d: "ucd_isdigit ucd_excerpt 0xB2" "latin_letter ucd_excerpt 0x78"
    by (simp_all add: ucd_excerpt_def ucd_rows_def latin_letter_def)
  have l: "\<forall>c\<in>set [0x639, 0x32]. \<not> latin_letter ucd_excerpt c"
    by (simp add: ucd_excerpt_def ucd_rows_def latin_letter_def)
  have s: "\<forall>c\<in>set [0x20, 0x20]. ucd_isspace ucd_excerpt c"
    by (simp add: ucd_excerpt_def ucd_rows_def)
  have t1: "formula (needs_ocr_enhancement ucd_excerpt [0x78, 0xB2] True False)"
    using formula_trigger[of ucd_excerpt "[0x78, 0xB2]" False True] ws d by simp
  have t2: "\<not> formula (needs_ocr_enhancement ucd_excerpt [0x639, 0x32] True False)"
    using formula_trigger[of ucd_excerpt "[0x639, 0x32]" False True] l by blast
  have t3: "\<not> formula (needs_ocr_enhancement ucd_excerpt [0x20, 0x20] True False)"
    using formula_trigger[of ucd_excerpt "[0x20, 0x20]" False True] s by blast
  show ?thesis using t1 l t2 s t3 by (simp add: list_all_iff)
qed

text \<open>
  C6 (amended). With \<open>checkEncoding\<close> set, for a non-blank text the encoding flag holds
  exactly when the text contains one of the fixed symbols or a character above 127 whose
  Unicode name contains none of ARABIC, LATIN and MATHEMATICAL (a character without a name
  counting as such). ASCII text free of NUL and SUB never triggers it, nor does a text free
  of the fixed symbols whose characters above 127 all belong to the accepted scripts.
\<close>

theorem encoding_trigger:
  "(\<not> (\<forall>c\<in>set text. ucd_isspace U c) \<longrightarrow>
      (encoding (needs_ocr_enhancement U text cf True) \<longleftrightarrow>
         (\<exists>c\<in>set text. c \<in> set error_chars)
         \<or> (\<exists>c\<in>set text. 127 < c \<and> \<not> accepted_script U c)))
   \<and> ((\<forall>c\<in>set text. c \<le> 127 \<and> c \<noteq> 0x00 \<and> c \<noteq> 0x1A) \<longrightarrow>
        \<not> encoding (needs_ocr_enhancement U text cf ce))
   \<and> ((\<forall>c\<in>set text. c \<notin> set error_chars \<and> (127 < c \<longrightarrow> accepted_script U c)) \<longrightarrow>
        \<not> encoding (needs_ocr_enhancement U text cf ce))"
proof (intro conjI impI)
  assume "\<not> (\<forall>c\<in>set text. ucd_isspace U c)"
  then show "encoding (needs_ocr_enhancement U text cf True) \<longleftrightarrow>
         (\<exists>c\<in>set text. c \<in> set error_chars)
         \<or> (\<exists>c\<in>set text. 127 < c \<and> \<not> accepted_script U c)"
    by (simp add: nonblank_quality has_encoding_issues_iff)
next
  assume a: "\<forall>c\<in>set text. c \<le> 127 \<and> c \<noteq> 0x00 \<and> c \<noteq> 0x1A"
  then have "\<forall>c\<in>set text. c \<notin> set error_chars" by (auto simp: error_chars_def)
  with a have "\<not> has_encoding_issues U text"
    unfolding has_encoding_issues_iff by fastforce
  then show "\<not> encoding (needs_ocr_enhancement U text cf ce)"
    by (cases "\<forall>c\<in>set text. ucd_isspace U c") (simp_all add: blank_quality nonblank_quality)
next
  assume "\<forall>c\<in>set text. c \<notin> set error_chars \<and> (127 < c \<longrightarrow> accepted_script U c)"
  then have "\<not> has_encoding_issues U text"
    unfolding has_encoding_issues_iff by blast
  then show "\<not> encoding (needs_ocr_enhancement U text cf ce)"
    by (cases "\<forall>c\<in>set text. ucd_isspace U c") (simp_all add: blank_quality nonblank_quality)
qed

text \<open>
  C6 as stated fails on the two-character ASCII text \<open>a\<close>, NUL: every character is within
  7-bit ASCII, and the encoding flag is set.
\<close>

theorem encoding_trigger_ascii_nul:
  "encoding (needs_ocr_enhancement ucd_excerpt [0x61, 0x00] False True)
   \<and> (0x61::nat) \<le> 127 \<and> (0x00::nat) \<le> 127"
  by (simp add: needs_ocr_enhancement_def py_strip_def has_encoding_issues_def error_chars_def
        ucd_excerpt_def ucd_rows_def)

theorem encoding_trigger_witness:
  "\<not> (\<forall>c\<in>set [0x61, 0xFFFD]. ucd_isspace ucd_excerpt c)
   \<and> encoding (needs_ocr_enhancement ucd_excerpt [0x61, 0xFFFD] False True)
   \<and> \<not> (\<forall>c\<in>set [0x61, 0x4E2D]. ucd_isspace ucd_excerpt c)
   \<and> encoding (needs_ocr_enhancement ucd_excerpt [0x61, 0x4E2D] False True)
   \<and> list_all (\<lambda>c. c \<le> 127 \<and> c \<noteq> 0x00 \<and> c \<noteq> 0x1A) [0x79, 0x3D, 0x78, 0x32 :: nat]
   \<and> \<not> encoding (needs_ocr_enhancement ucd_excerpt [0x79, 0x3D, 0x78, 0x32] False True)
   \<and> list_all (\<lambda>c. c \<notin> set error_chars \<and> (127 < c \<longrightarrow> accepted_script ucd_excerpt c))
        [0x61, 0xE9, 0x20, 0x639]
   \<and> \<not> encoding (needs_ocr_enhancement ucd_excerpt [0x61, 0xE9, 0x20, 0x639] False True)"
proof -
  have n: "\<not> (\<forall>c\<in>set [0x61, 0xFFFD]. ucd_isspace ucd_excerpt c)"
    "\<not> (\<forall>c\<in>set [0x61, 0x4E2D]. ucd_isspace ucd_excerpt c)"
    by (simp_all add: ucd_excerpt_def ucd_rows_def)
  have e: "(0xFFFD::nat) \<in> set error_chars" by (simp add: error_chars_def)
  have c: "\<not> accepted_script ucd_excerpt 0x4E2D"
    by (simp add: accepted_script_def ucd_excerpt_def ucd_rows_def)
  have a: "\<forall>c\<in>set [0x79, 0x3D, 0x78, 0x32 :: nat]. c \<le> 127 \<and> c \<noteq> 0x00 \<and> c \<noteq> 0x1A"
    by simp
  have s: "\<forall>c\<in>set [0x61, 0xE9, 0x20, 0x639].
         c \<notin> set error_chars \<and> (127 < c \<longrightarrow> accepted_script ucd_excerpt c)"
    by (simp add: error_chars_def accepted_script_def ucd_excerpt_def ucd_rows_def)
  have x1: "\<exists>c\<in>set [0x61, 0xFFFD]. c \<in> set error_chars" using e by simp
  have x2: "\<exists>c\<in>set [0x61, 0x4E2D]. 127 < c \<and> \<not> accepted_script ucd_excerpt c"
    using c by simp
  have t1: "encoding (needs_ocr_enhancement ucd_excerpt [0x61, 0xFFFD] False True)"
    using encoding_trigger[of "[0x61, 0xFFFD]" ucd_excerpt False True,
            THEN conjunct1, THEN mp, OF n(1)] x1 by (rule iffD2[OF _ disjI1])
  have t2: "encoding (needs_ocr_enhancement ucd_excerpt [0x61, 0x4E2D] False True)"
    using encoding_trigger[of "[0x61, 0x4E2D]" ucd_excerpt False True,
            THEN conjunct1, THEN mp, OF n(2)] x2 by (rule iffD2[OF _ disjI2])
  have t3: "\<not> encoding (needs_ocr_enhancement ucd_excerpt [0x79, 0x3D, 0x78, 0x32] False True)"
    by (rule encoding_trigger[of "[0x79, 0x3D, 0x78, 0x32]" ucd_excerpt False True,
            THEN conjunct2, THEN conjunct1, THEN mp, OF a])
  have t4: "\<not> encoding (needs_ocr_enhancement ucd_excerpt [0x61, 0xE9, 0x20, 0x639] False True)"
    by (rule encoding_trigger[of "[0x61, 0xE9, 0x20, 0x639]" ucd_excerpt False True,
            THEN conjunct2, THEN conjunct2, THEN mp, OF s])
  have a': "list_all (\<lambda>c. c \<le> 127 \<and> c \<noteq> 0x00 \<and> c \<noteq> 0x1A) [0x79, 0x3D, 0x78, 0x32 :: nat]"
    using a by (simp only: list_all_iff)
  have s': "list_all (\<lambda>c. c \<notin> set error_chars \<and> (127 < c \<longrightarrow> accepted_script ucd_excerpt c))
        [0x61, 0xE9, 0x20, 0x639]"
    using s by (simp only: list_all_iff)
  show ?thesis by (intro conjI n t1 t2 a' t3 s' t4)
qed

section \<open>The OCR adapter\<close>

lemma ensure_loaded_fails: "init_fails ext ocr \<Longrightarrow> init_fails ext (ensure_loaded ext ocr)"
  by (auto simp: init_fails_def ensure_loaded_def load_models_def)

lemma extract_text_disabled:
  "init_fails ext ocr \<Longrightarrow>
   extract_text_from_region ext ocr page_image bbox old_text math_mode
     = (ensure_loaded ext ocr, old_text)"
  using ensure_loaded_fails[of ext ocr]
  by (simp add: extract_text_from_region_def init_fails_def Let_def)

lemma enhance_table_disabled:
  "init_fails ext ocr \<Longrightarrow>
   enhance_table_structure ext ocr table_image page_dim table_item table_bbox pdf_w pdf_h
     = (ensure_loaded ext ocr, table_item)"
  using ensure_loaded_fails[of ext ocr]
  by (simp add: enhance_table_structure_def init_fails_def Let_def)

text \<open>
  C8 (amended). With the models loaded, for every recognition result the function keeps
  the lines of the first prediction whose confidence is above \<open>0.5\<close>, joins their texts with
  single spaces and returns the joined string stripped of leading and trailing whitespace;
  when that is empty, and so when no line clears the threshold, it returns the previous
  text.
\<close>

theorem extract_text_confident_lines:
  assumes "models_loaded (ensure_loaded ext ocr)"
    and "recognition_predictor ext page_image (padded_region page_image bbox) math_mode
           = Inr predictions"
  shows "snd (extract_text_from_region ext ocr page_image bbox old_text math_mode)
           = (let kept = (if predictions = [] then []
                          else filter (\<lambda>line. 1 / 2 < confidence line) (hd predictions));
                  joined = join_space (map line_text kept);
                  stripped = py_strip (ucd ext) joined
              in if stripped = [] then old_text else stripped)
         \<and> ((predictions = [] \<or> (\<forall>line\<in>set (hd predictions). \<not> 1 / 2 < confidence line)) \<longrightarrow>
              snd (extract_text_from_region ext ocr page_image bbox old_text math_mode) = old_text)"
proof -
  have e: "snd (extract_text_from_region ext ocr page_image bbox old_text math_mode)
           = (let kept = (if predictions = [] then []
                          else filter (\<lambda>line. 1 / 2 < confidence line) (hd predictions));
                  joined = join_space (map line_text kept);
                  stripped = py_strip (ucd ext) joined
              in if stripped = [] then old_text else stripped)"
    using assms by (simp add: extract_text_from_region_def high_confidence_lines_def Let_def)
  have "snd (extract_text_from_region ext ocr page_image bbox old_text math_mode) = old_text"
    if "predictions = [] \<or> (\<forall>line\<in>set (hd predictions). \<not> 1 / 2 < confidence line)"
  proof -
    have "(if predictions = [] then []
           else filter (\<lambda>line. 1 / 2 < confidence line) (hd predictions)) = []"
      using that by (auto simp: filter_empty_conv)
    then show ?thesis unfolding e by (simp add: py_strip_def)
  qed
  with e show ?thesis by blast
qed

section \<open>Loops that edit in place\<close>

lemma loop_items_frame:
  assumes "\<And>s x. I s \<Longrightarrow> x \<in> set xs \<Longrightarrow>
             (case body s x of (r, s', x') \<Rightarrow> x' = x \<and> I s' \<and> (r = None \<longleftrightarrow> G x))"
    and "I s"
  shows "case loop_items body s xs of
           (r, s', xs') \<Rightarrow> xs' = xs \<and> I s' \<and> (r = None \<longleftrightarrow> list_all G xs)"
  using assms
proof (induction xs arbitrary: s)
  case Nil
  then show ?case by simp
next
  case (Cons x xs)
  obtain r s1 x' where b: "body s x = (r, s1, x')" by (cases "body s x") auto
  from Cons.prems(1)[OF Cons.prems(2), of x] b
  have x: "x' = x" "I s1" "r = None \<longleftrightarrow> G x" by simp_all
  show ?case
  proof (cases r)
    case (Some e)
    then show ?thesis using b x by auto
  next
    case None
    have "case loop_items body s1 xs of
            (r, s', xs') \<Rightarrow> xs' = xs \<and> I s' \<and> (r = None \<longleftrightarrow> list_all G xs)"
      using Cons.prems(1) x(2) by (intro Cons.IH) auto
    then show ?thesis using b x None by (auto split: prod.splits)
  qed
qed


section \<open>The occlusion list\<close>

lemma collect_boxes_iff:
  "(\<exists>bs. collect_boxes page_num pdf_w pdf_h img_w img_h its = Inr bs)
     \<longleftrightarrow> list_all (\<lambda>it. on_page (item_prov it) page_num \<longrightarrow>
                          converts it pdf_w pdf_h img_w img_h) its"
proof (induction its)
  case Nil
  then show ?case by simp
next
  case (Cons it its)
  show ?case
  proof (cases "on_page (item_prov it) page_num")
    case False
    then show ?thesis using Cons.IH by simp
  next
    case True
    show ?thesis
    proof (cases "get_pixel_bbox it pdf_w pdf_h img_w img_h")
      case (Inl e)
      then show ?thesis using True by (simp add: converts_def bind_r_def)
    next
      case (Inr b)
      then show ?thesis
        using True Cons.IH
        by (cases "collect_boxes page_num pdf_w pdf_h img_w img_h its")
           (simp_all add: converts_def bind_r_def)
    qed
  qed
qed


section \<open>The workflow without models\<close>

lemma stays_disabled_refl: "init_fails ext (ocr_enhancer de) \<Longrightarrow> stays_disabled ext de de"
  by (simp add: stays_disabled_def)

lemma stays_disabled_quality:
  "stays_disabled ext de d \<Longrightarrow> should_enhance_text ext d txt = should_enhance_text ext de txt"
  by (simp add: stays_disabled_def should_enhance_text_def)

lemma stays_disabled_step:
  "stays_disabled ext de d \<Longrightarrow>
   stays_disabled ext de (d\<lparr>ocr_enhancer := ensure_loaded ext (ocr_enhancer d)\<rparr>)"
  using ensure_loaded_fails[of ext "ocr_enhancer d"] by (simp add: stays_disabled_def)

lemma process_cell_disabled:
  assumes "stays_disabled ext de d"
  shows "case process_cell ext page_image pdf_w pdf_h img_w img_h d cell of
           (r, d', cell') \<Rightarrow>
             cell' = cell \<and> stays_disabled ext de d'
             \<and> (r = None \<longleftrightarrow>
                  (triggers (should_enhance_text ext de (cell_text cell)) \<longrightarrow>
                     converts (cell_as_item cell) pdf_w pdf_h img_w img_h))"
proof -
  have i: "init_fails ext (ocr_enhancer d)" using assms by (simp add: stays_disabled_def)
  note q = stays_disabled_quality[OF assms]
  show ?thesis
  proof (cases "triggers (should_enhance_text ext de (cell_text cell))")
    case False
    then show ?thesis using assms by (simp add: process_cell_def q)
  next
    case True
    show ?thesis
    proof (cases "get_pixel_bbox (cell_as_item cell) pdf_w pdf_h img_w img_h")
      case (Inl e)
      then show ?thesis using True assms by (simp add: process_cell_def q converts_def)
    next
      case (Inr b)
      then show ?thesis
        using True stays_disabled_step[OF assms]
        by (simp add: process_cell_def q converts_def Let_def extract_text_disabled[OF i])
    qed
  qed
qed

lemma process_cells_disabled:
  assumes "stays_disabled ext de d"
  shows "case loop_items (process_cell ext page_image pdf_w pdf_h img_w img_h) d cells of
           (r, d', cells') \<Rightarrow>
             cells' = cells \<and> stays_disabled ext de d'
             \<and> (r = None \<longleftrightarrow>
                  list_all (\<lambda>cell. triggers (should_enhance_text ext de (cell_text cell)) \<longrightarrow>
                                     converts (cell_as_item cell) pdf_w pdf_h img_w img_h) cells)"
  by (rule loop_items_frame[where I = "stays_disabled ext de"])
     (use assms process_cell_disabled in auto)

lemma process_table_disabled:
  assumes "stays_disabled ext de d"
  shows "case process_table ext page_num page_image pdf_w pdf_h img_w img_h d tbl of
           (r, d', tbl') \<Rightarrow>
             tbl' = tbl \<and> stays_disabled ext de d'
             \<and> (r = None \<longleftrightarrow>
                  table_succeeds ext de page_num page_image pdf_w pdf_h img_w img_h tbl)"
proof (cases "on_page (table_prov tbl) page_num")
  case False
  then show ?thesis using assms by (simp add: process_table_def table_succeeds_def)
next
  case True
  have i: "init_fails ext (ocr_enhancer d)" using assms by (simp add: stays_disabled_def)
  show ?thesis
  proof (cases "get_pixel_bbox (table_as_item tbl) pdf_w pdf_h img_w img_h")
    case (Inl e)
    then show ?thesis using True assms by (simp add: process_table_def table_succeeds_def)
  next
    case (Inr table_bbox)
    show ?thesis
    proof (cases "crop ext page_image table_bbox")
      case (Inl e)
      then show ?thesis
        using True Inr assms by (simp add: process_table_def table_succeeds_def)
    next
      case r: (Inr table_image)
      let ?d = "d\<lparr>ocr_enhancer := ensure_loaded ext (ocr_enhancer d)\<rparr>"
      obtain rr d' cells' where
        l: "loop_items (process_cell ext page_image pdf_w pdf_h img_w img_h) ?d (table_cells tbl)
              = (rr, d', cells')"
        by (cases "loop_items (process_cell ext page_image pdf_w pdf_h img_w img_h) ?d
                     (table_cells tbl)") auto
      from process_cells_disabled[OF stays_disabled_step[OF assms], where page_image = page_image
             and pdf_w = pdf_w and pdf_h = pdf_h and img_w = img_w and img_h = img_h
             and cells = "table_cells tbl"] l
      have c: "cells' = table_cells tbl" "stays_disabled ext de d'"
        "rr = None \<longleftrightarrow>
           list_all (\<lambda>cell. triggers (should_enhance_text ext de (cell_text cell)) \<longrightarrow>
                              converts (cell_as_item cell) pdf_w pdf_h img_w img_h)
             (table_cells tbl)"
        by simp_all
      have "process_table ext page_num page_image pdf_w pdf_h img_w img_h d tbl = (rr, d', tbl)"
        using True Inr r l c(1) by (simp add: process_table_def enhance_table_disabled[OF i])
      then show ?thesis using c True Inr r by (simp add: table_succeeds_def)
    qed
  qed
qed

lemma process_tables_disabled:
  assumes "stays_disabled ext de d"
  shows "case process_tables ext page_num page_image pdf_w pdf_h img_w img_h d document of
           (r, d', document') \<Rightarrow>
             document' = document \<and> stays_disabled ext de d'
             \<and> (r = None \<longleftrightarrow>
                  list_all (table_succeeds ext de page_num page_image pdf_w pdf_h img_w img_h)
                    (tables document))"
proof -
  have "case loop_items (process_table ext page_num page_image pdf_w pdf_h img_w img_h) d
               (tables document) of
          (r, d', ts') \<Rightarrow>
            ts' = tables document \<and> stays_disabled ext de d'
            \<and> (r = None \<longleftrightarrow>
                 list_all (table_succeeds ext de page_num page_image pdf_w pdf_h img_w img_h)
                   (tables document))"
    by (rule loop_items_frame[where I = "stays_disabled ext de"])
       (use assms process_table_disabled in auto)
  then show ?thesis by (auto simp: process_tables_def split: prod.splits)
qed

lemma process_text_element_disabled:
  assumes "stays_disabled ext de d"
  shows "case process_text_element ext page_num page_image pdf_w pdf_h img_w img_h boxes d txt of
           (r, d', txt') \<Rightarrow>
             txt' = txt \<and> stays_disabled ext de d'
             \<and> (r = None \<longleftrightarrow>
                  (on_page (text_prov txt) page_num \<longrightarrow>
                     converts (text_as_item txt) pdf_w pdf_h img_w img_h))"
proof (cases "on_page (text_prov txt) page_num")
  case False
  then show ?thesis using assms by (simp add: process_text_element_def)
next
  case True
  have i: "init_fails ext (ocr_enhancer d)" using assms by (simp add: stays_disabled_def)
  show ?thesis
  proof (cases "get_pixel_bbox (text_as_item txt) pdf_w pdf_h img_w img_h")
    case (Inl e)
    then show ?thesis using True assms by (simp add: process_text_element_def converts_def)
  next
    case (Inr b)
    then show ?thesis
      using True assms stays_disabled_step[OF assms]
      by (simp add: process_text_element_def converts_def Let_def extract_text_disabled[OF i])
  qed
qed

lemma process_text_elements_disabled:
  assumes "stays_disabled ext de d"
  shows "case process_text_elements ext page_num page_image pdf_w pdf_h img_w img_h boxes d
                document of
           (r, d', document') \<Rightarrow>
             document' = document \<and> stays_disabled ext de d'
             \<and> (r = None \<longleftrightarrow>
                  list_all (\<lambda>t. on_page (text_prov t) page_num \<longrightarrow>
                                  converts (text_as_item t) pdf_w pdf_h img_w img_h)
                    (texts document))"
proof -
  have "case loop_items
               (process_text_element ext page_num page_image pdf_w pdf_h img_w img_h boxes) d
               (texts document) of
          (r, d', ts') \<Rightarrow>
            ts' = texts document \<and> stays_disabled ext de d'
            \<and> (r = None \<longleftrightarrow>
                 list_all (\<lambda>t. on_page (text_prov t) page_num \<longrightarrow>
                                 converts (text_as_item t) pdf_w pdf_h img_w img_h)
                   (texts document))"
    by (rule loop_items_frame[where I = "stays_disabled ext de"])
       (use assms process_text_element_disabled in auto)
  then show ?thesis by (auto simp: process_text_elements_def split: prod.splits)
qed

lemma process_page_elements_disabled:
  assumes "stays_disabled ext de d"
  shows "case process_page_elements ext page page_image page_num d document of
           (r, d', document') \<Rightarrow>
             document' = document \<and> stays_disabled ext de d'
             \<and> (r = None \<longleftrightarrow>
                  list_all (\<lambda>it. on_page (item_prov it) page_num \<longrightarrow>
                                   converts it (page_width page) (page_height page)
                                     (im_width page_image) (im_height page_image))
                    (non_text_items document)
                  \<and> list_all (table_succeeds ext de page_num page_image (page_width page)
                                (page_height page) (im_width page_image) (im_height page_image))
                      (tables document)
                  \<and> list_all (\<lambda>t. on_page (text_prov t) page_num \<longrightarrow>
                                     converts (text_as_item t) (page_width page) (page_height page)
                                       (im_width page_image) (im_height page_image))
                      (texts document))"
proof (cases "collect_non_text_bboxes page_num (page_width page) (page_height page)
                (im_width page_image) (im_height page_image) document")
  case (Inl e)
  have "\<not> list_all (\<lambda>it. on_page (item_prov it) page_num \<longrightarrow>
                           converts it (page_width page) (page_height page)
                             (im_width page_image) (im_height page_image))
            (non_text_items document)"
    using Inl collect_boxes_iff[of page_num "page_width page" "page_height page"
            "im_width page_image" "im_height page_image" "non_text_items document"]
    by (simp add: collect_non_text_bboxes_def)
  then show ?thesis using Inl assms by (simp add: process_page_elements_def Let_def)
next
  case (Inr boxes)
  have nt: "list_all (\<lambda>it. on_page (item_prov it) page_num \<longrightarrow>
                           converts it (page_width page) (page_height page)
                             (im_width page_image) (im_height page_image))
            (non_text_items document)"
    using Inr collect_boxes_iff[of page_num "page_width page" "page_height page"
            "im_width page_image" "im_height page_image" "non_text_items document"]
    by (simp add: collect_non_text_bboxes_def)
  obtain r1 d1 doc1 where
    t: "process_tables ext page_num page_image (page_width page) (page_height page)
          (im_width page_image) (im_height page_image) d document = (r1, d1, doc1)"
    by (cases "process_tables ext page_num page_image (page_width page) (page_height page)
                 (im_width page_image) (im_height page_image) d document") auto
  from process_tables_disabled[OF assms, where page_num = page_num and page_image = page_image
         and pdf_w = "page_width page" and pdf_h = "page_height page"
         and img_w = "im_width page_image" and img_h = "im_height page_image"
         and document = document] t
  have t1: "doc1 = document" "stays_disabled ext de d1"
    "r1 = None \<longleftrightarrow>
       list_all (table_succeeds ext de page_num page_image (page_width page) (page_height page)
                   (im_width page_image) (im_height page_image)) (tables document)"
    by simp_all
  show ?thesis
  proof (cases r1)
    case (Some e)
    have "process_page_elements ext page page_image page_num d document = (Some e, d1, document)"
      using Inr t t1(1) Some by (simp add: process_page_elements_def Let_def)
    then show ?thesis using t1(2,3) Some by simp
  next
    case None
    obtain r2 d2 doc2 where
      x: "process_text_elements ext page_num page_image (page_width page) (page_height page)
            (im_width page_image) (im_height page_image) boxes d1 document = (r2, d2, doc2)"
      by (cases "process_text_elements ext page_num page_image (page_width page)
                   (page_height page) (im_width page_image) (im_height page_image) boxes d1
                   document") auto
    from process_text_elements_disabled[OF t1(2), where page_num = page_num
           and page_image = page_image and pdf_w = "page_width page"
           and pdf_h = "page_height page" and img_w = "im_width page_image"
           and img_h = "im_height page_image" and boxes = boxes and document = document] x
    have x1: "doc2 = document" "stays_disabled ext de d2"
      "r2 = None \<longleftrightarrow>
         list_all (\<lambda>t. on_page (text_prov t) page_num \<longrightarrow>
                         converts (text_as_item t) (page_width page) (page_height page)
                           (im_width page_image) (im_height page_image)) (texts document)"
      by simp_all
    have "process_page_elements ext page page_image page_num d document = (r2, d2, document)"
      using Inr t t1(1) None x x1(1) by (simp add: process_page_elements_def Let_def)
    then show ?thesis using x1(2,3) t1(3) None nt by simp
  qed
qed

lemma process_pages_disabled:
  assumes "stays_disabled ext de d"
  shows "case process_pages ext d document ps of
           (r, d', document') \<Rightarrow>
             document' = document \<and> stays_disabled ext de d'
             \<and> (r = None \<longleftrightarrow>
                  list_all (\<lambda>(page_num, page). page_succeeds ext de document page_num page) ps)"
  using assms
proof (induction ps arbitrary: d)
  case Nil
  then show ?case by simp
next
  case (Cons np ps)
  obtain page_num page where np: "np = (page_num, page)" by (cases np) auto
  show ?case
  proof (cases "get_page_image ext page")
    case None
    then show ?thesis
      using Cons.IH[OF Cons.prems] np by (auto simp: page_succeeds_def split: prod.splits)
  next
    case (Some raw_image)
    let ?img = "preprocess_image ext raw_image"
    obtain r1 d1 doc1 where
      e: "process_page_elements ext page ?img page_num d document = (r1, d1, doc1)"
      by (cases "process_page_elements ext page ?img page_num d document") auto
    from process_page_elements_disabled[OF Cons.prems, where page = page
           and page_image = ?img and page_num = page_num and document = document] e
    have e1: "doc1 = document" "stays_disabled ext de d1"
      "r1 = None \<longleftrightarrow> page_succeeds ext de document page_num page"
      by (simp_all add: page_succeeds_def Some Let_def)
    show ?thesis
    proof (cases r1)
      case (Some err)
      then show ?thesis using \<open>get_page_image ext page = Some raw_image\<close> e e1 np by auto
    next
      case None
      then show ?thesis
        using \<open>get_page_image ext page = Some raw_image\<close> e e1 np Cons.IH[OF e1(2)]
        by (auto split: prod.splits)
    qed
  qed
qed

lemma process_conversion_result_disabled:
  assumes "init_fails ext (ocr_enhancer de)"
  shows "snd (snd (process_conversion_result ext de conversion_result)) = conversion_result"
    and "fst (process_conversion_result ext de (Some document)) = None
           \<longleftrightarrow> \<not> (enable_formula_enhancement de \<or> enable_character_encoding_fix de)
               \<or> conversions_succeed ext de document"
proof -
  note s = stays_disabled_refl[OF assms]
  show "snd (snd (process_conversion_result ext de conversion_result)) = conversion_result"
  proof (cases conversion_result)
    case None
    then show ?thesis by (simp add: process_conversion_result_def)
  next
    case (Some doc)
    then show ?thesis
      using process_pages_disabled[OF s, of doc "pages doc"]
      by (auto simp: process_conversion_result_def split: prod.splits)
  qed
  show "fst (process_conversion_result ext de (Some document)) = None
           \<longleftrightarrow> \<not> (enable_formula_enhancement de \<or> enable_character_encoding_fix de)
               \<or> conversions_succeed ext de document"
    using process_pages_disabled[OF s, of document "pages document"]
    by (auto simp: process_conversion_result_def conversions_succeed_def split: prod.splits)
qed

section \<open>The worked page\<close>

lemma scale_0_612: "scale_px 0 612 612 = 0"
proof -
  have a: "rnd (0 / 612) = 0"
    by (simp add: rnd_0)
  have f: "rnd (rat_of_int 612) = 612"
    using rnd_of_int[of 612] by simp
  have c: "rnd (0 * 612) = 0"
    by (simp add: rnd_0)
  have "py_trunc 0 = 0" by (rule py_trunc_eqI) simp_all
  then show ?thesis by (simp only: scale_px_def a f c)
qed

lemma scale_612_612: "scale_px 612 612 612 = 612"
proof -
  have a: "rnd (612 / 612) = 1"
    by (rule rnd_near[where k = "0" and m = "4503599627370496", THEN trans]) (simp_all add: power_int_minus)
  have f: "rnd (rat_of_int 612) = 612"
    using rnd_of_int[of 612] by simp
  have c: "rnd (1 * 612) = 612"
    by (rule rnd_near[where k = "9" and m = "5383208929591296", THEN trans]) (simp_all add: power_int_minus)
  have "py_trunc 612 = 612" by (rule py_trunc_eqI) simp_all
  then show ?thesis by (simp only: scale_px_def a f c)
qed

lemma scale_0_792: "scale_px 0 792 792 = 0"
proof -
  have a: "rnd (0 / 792) = 0"
    by (simp add: rnd_0)
  have f: "rnd (rat_of_int 792) = 792"
    using rnd_of_int[of 792] by simp
  have c: "rnd (0 * 792) = 0"
    by (simp add: rnd_0)
  have "py_trunc 0 = 0" by (rule py_trunc_eqI) simp_all
  then show ?thesis by (simp only: scale_px_def a f c)
qed

lemma scale_792_792: "scale_px 792 792 792 = 792"
proof -
  have a: "rnd (792 / 792) = 1"
    by (rule rnd_near[where k = "0" and m = "4503599627370496", THEN trans]) (simp_all add: power_int_minus)
  have f: "rnd (rat_of_int 792) = 792"
    using rnd_of_int[of 792] by simp
  have c: "rnd (1 * 792) = 792"
    by (rule rnd_near[where k = "9" and m = "6966505673588736", THEN trans]) (simp_all add: power_int_minus)
  have "py_trunc 792 = 792" by (rule py_trunc_eqI) simp_all
  then show ?thesis by (simp only: scale_px_def a f c)
qed


lemma page_item_box:
  "get_pixel_bbox \<lparr>item_prov = example_prov, item_bbox = None\<rparr> (Fin 612) (Fin 792) 612 792
     = Inr (0, 0, 612, 792)"
proof -
  have o: "item_bbox_origin \<lparr>item_prov = example_prov, item_bbox = None\<rparr>
             = Inr (Some \<lparr>bb_l = Fin 0, bb_t = Fin 792, bb_r = Fin 612, bb_b = Fin 0,
                           bb_coord_origin = OriginEnum BOTTOMLEFT\<rparr>, origin_name BOTTOMLEFT)"
    by (simp add: item_bbox_origin_def has_prov_def example_prov_def page_box_def)
  have r: "rnd 792 = 792" using rnd_of_int[of 792] by simp
  have "get_pixel_bbox \<lparr>item_prov = example_prov, item_bbox = None\<rparr> (Fin 612) (Fin 792) 612 792
          = Inr (toPixelBBox (0, 792, 612, 0) BOTTOMLEFT 612 792 612 792)"
    by (rule get_pixel_bbox_spec[OF o]) simp_all
  then show ?thesis
    by (simp add: toPixelBBox_def rnd_0 r scale_0_612 scale_612_612 scale_0_792 scale_792_792)
qed

lemma x2_quality:
  "needs_ocr_enhancement ucd_excerpt [0x78, 0x32] True ce = \<lparr>encoding = False, formula = True\<rparr>"
  by (simp add: needs_ocr_enhancement_def py_strip_def needs_formula_enhancement_def
        has_encoding_issues_def error_chars_def ucd_excerpt_def ucd_rows_def)

lemma example_page_image:
  "get_page_image without_surya example_page = Some example_image"
  "get_page_image with_surya example_page = Some example_image"
  by (simp_all add: get_page_image_def example_page_def without_surya_def with_surya_def)

section \<open>process_conversion_result\<close>

text \<open>
  C3. With both enhancement flags false, \<open>process_conversion_result\<close> returns its input,
  raises nothing and leaves the enhancer as it was.
\<close>

theorem disabled_enhancer_is_identity:
  assumes "\<not> enable_formula_enhancement de" and "\<not> enable_character_encoding_fix de"
  shows "process_conversion_result ext de conversion_result = (None, de, conversion_result)"
  using assms by (cases conversion_result) (simp_all add: process_conversion_result_def)

theorem disabled_enhancer_is_identity_witness:
  "process_conversion_result with_surya (enhancer False False) (Some text_document)
     = (None, enhancer False False, Some text_document)"
  using disabled_enhancer_is_identity[of "enhancer False False" with_surya "Some text_document"]
  by (simp add: enhancer_def)

text \<open>
  C4 (amended). When initialization fails, \<open>extract_text_from_region\<close> returns the
  original text, \<open>enhance_table_structure\<close> leaves the table and its cells as they are, and
  \<open>process_conversion_result\<close> leaves every element of the document unchanged, whether it
  returns or raises; with a flag set, it raises nothing exactly when the conversions of the
  document succeed.
\<close>

theorem graceful_degradation:
  assumes "init_fails ext (ocr_enhancer de)"
  shows "snd (extract_text_from_region ext (ocr_enhancer de) page_image bbox old_text math_mode)
           = old_text
         \<and> snd (enhance_table_structure ext (ocr_enhancer de) table_image page_dim table_item
                  table_bbox pdf_w pdf_h) = table_item
         \<and> snd (snd (process_conversion_result ext de conversion_result)) = conversion_result
         \<and> (fst (process_conversion_result ext de (Some document)) = None
              \<longleftrightarrow> \<not> (enable_formula_enhancement de \<or> enable_character_encoding_fix de)
                  \<or> conversions_succeed ext de document)"
  using process_conversion_result_disabled[OF assms]
  by (simp add: extract_text_disabled[OF assms] enhance_table_disabled[OF assms])

lemma without_surya_fails: "init_fails without_surya (ocr_enhancer (enhancer cf ce))"
  by (simp add: init_fails_def without_surya_def enhancer_def)

lemma example_on_page: "on_page example_prov 1"
  by (simp add: on_page_def example_prov_def)

lemma example_sizes:
  "im_width example_image = 612" "im_height example_image = 792"
  "page_width example_page = Fin 612" "page_height example_page = Fin 792"
  by (simp_all add: example_image_def example_page_def)

lemma without_surya_fields:
  "ucd without_surya = ucd_excerpt" "preprocess_image without_surya img = img"
  "crop without_surya img box = Inr img"
  by (simp_all add: without_surya_def)

lemma text_document_succeeds: "conversions_succeed without_surya (enhancer cf ce) text_document"
  using page_item_box
  by (simp add: conversions_succeed_def page_succeeds_def text_document_def example_page_image
        without_surya_fields example_sizes non_text_items_def converts_def text_as_item_def)

text \<open>
  C4 as stated fails on a page with a table whose cell \<open>x2\<close> has no bounding box: the cell's
  text triggers the formula check, its box is looked up before the disabled adapter is
  asked, and the \<open>AttributeError\<close> leaves \<open>process_conversion_result\<close>.
\<close>

theorem degraded_run_raises:
  "init_fails without_surya (ocr_enhancer (enhancer True True))
   \<and> fst (process_conversion_result without_surya (enhancer True True) (Some table_document))
       = Some AttributeError"
proof -
  let ?tbl = "\<lparr>table_prov = example_prov, table_cells = [cell_without_box]\<rparr>"
  let ?de = "enhancer True True"
  let ?de1 = "?de\<lparr>ocr_enhancer := ensure_loaded without_surya (ocr_enhancer ?de)\<rparr>"
  have q: "should_enhance_text without_surya ?de1 (cell_text cell_without_box)
             = \<lparr>encoding = False, formula = True\<rparr>"
    by (simp add: should_enhance_text_def without_surya_fields x2_quality enhancer_def
          cell_without_box_def)
  have g: "get_pixel_bbox (cell_as_item cell_without_box) (Fin 612) (Fin 792) 612 792
             = Inl AttributeError"
    by (simp add: get_pixel_bbox_def cell_as_item_def cell_without_box_def item_bbox_origin_def
          has_prov_def bind_r_def)
  have c: "process_cell without_surya example_image (Fin 612) (Fin 792) 612 792 ?de1
             cell_without_box
             = (Some AttributeError, ?de1, cell_without_box)"
    by (simp add: process_cell_def q g triggers_def)
  have gp: "get_pixel_bbox (table_as_item ?tbl) (Fin 612) (Fin 792) 612 792
              = Inr (0, 0, 612, 792)"
    using page_item_box by (simp add: table_as_item_def)
  have en: "enhance_table_structure without_surya (ocr_enhancer ?de) example_image (612, 792)
              ?tbl (0, 0, 612, 792) (Fin 612) (Fin 792)
            = (ensure_loaded without_surya (ocr_enhancer ?de), ?tbl)"
    by (rule enhance_table_disabled[OF without_surya_fails])
  have t: "process_table without_surya 1 example_image (Fin 612) (Fin 792) 612 792 ?de ?tbl
             = (Some AttributeError, ?de1, ?tbl)"
    by (simp add: process_table_def example_on_page gp without_surya_fields en c)
  have ts: "process_tables without_surya 1 example_image (Fin 612) (Fin 792) 612 792 ?de
              table_document
              = (Some AttributeError, ?de1, table_document)"
    by (simp add: process_tables_def table_document_def t)
  have cb: "collect_non_text_bboxes 1 (Fin 612) (Fin 792) 612 792 table_document
              = Inr [(0, 0, 612, 792)]"
    using gp example_on_page
    by (simp add: collect_non_text_bboxes_def non_text_items_def table_document_def
          table_as_item_def bind_r_def)
  have pe: "process_page_elements without_surya example_page example_image 1 ?de table_document
              = (Some AttributeError, ?de1, table_document)"
    by (simp add: process_page_elements_def example_sizes cb ts)
  have pp: "process_pages without_surya ?de table_document [(1, example_page)]
              = (Some AttributeError, ?de1, table_document)"
    by (simp add: example_page_image without_surya_fields pe)
  have "pages table_document = [(1, example_page)]" by (simp add: table_document_def)
  then have "fst (process_conversion_result without_surya ?de (Some table_document))
               = Some AttributeError"
    using pp by (simp add: process_conversion_result_def enhancer_def)
  then show ?thesis using without_surya_fails by simp
qed

theorem graceful_degradation_witness:
  "init_fails without_surya (ocr_enhancer (enhancer True True))
   \<and> conversions_succeed without_surya (enhancer True True) text_document
   \<and> snd (extract_text_from_region without_surya (ocr_enhancer (enhancer True True))
            example_image (0, 0, 612, 792) [0x78, 0x32] True) = [0x78, 0x32]
   \<and> snd (enhance_table_structure without_surya (ocr_enhancer (enhancer True True))
            example_image (612, 792)
            \<lparr>table_prov = example_prov, table_cells = [cell_without_box]\<rparr>
            (0, 0, 612, 792) (Fin 612) (Fin 792))
       = \<lparr>table_prov = example_prov, table_cells = [cell_without_box]\<rparr>
   \<and> snd (snd (process_conversion_result without_surya (enhancer True True)
                 (Some table_document))) = Some table_document
   \<and> fst (process_conversion_result without_surya (enhancer True True) (Some text_document))
       = None"
  using graceful_degradation[OF without_surya_fails, of True True example_image
          "(0, 0, 612, 792)" "[0x78, 0x32]" True example_image "(612, 792)"
          "\<lparr>table_prov = example_prov, table_cells = [cell_without_box]\<rparr>"
          "(0, 0, 612, 792)" "Fin 612" "Fin 792" "Some table_document" text_document]
        without_surya_fails[of True True] text_document_succeeds[of True True]
  by simp

section \<open>Recognition results\<close>

lemma with_surya_fields:
  "ucd with_surya = ucd_excerpt" "preprocess_image with_surya img = img"
  "crop with_surya img box = Inr img"
  "recognition_predictor with_surya img box math_mode
     = Inr [[\<lparr>line_text = [0x20, 0x78], confidence = 3 / 4\<rparr>,
             \<lparr>line_text = [0x79], confidence = 1 / 4\<rparr>]]"
  by (simp_all add: with_surya_def without_surya_def)

lemma with_surya_loads:
  "ensure_loaded with_surya (ocr_enhancer (enhancer cf ce))
     = \<lparr>models_loaded = True, models_loading = False\<rparr>"
  by (simp add: ensure_loaded_def load_models_def with_surya_def without_surya_def enhancer_def)

lemma strip_space_x: "py_strip ucd_excerpt [0x20, 0x78] = [0x78]"
  by (simp add: py_strip_def ucd_excerpt_def ucd_rows_def)

lemma with_surya_extract:
  "extract_text_from_region with_surya (ocr_enhancer (enhancer cf ce)) img bbox old_text math_mode
     = (\<lparr>models_loaded = True, models_loading = False\<rparr>, [0x78])"
  by (simp add: extract_text_from_region_def with_surya_loads with_surya_fields
        high_confidence_lines_def strip_space_x Let_def)

text \<open>
  C8 as stated fails when a kept line starts with a space: the lines above \<open>0.5\<close> join to
  the two characters space, \<open>x\<close>, and the function returns \<open>x\<close> alone.
\<close>

theorem extract_text_strips_joined_string:
  "recognition_predictor with_surya example_image
       (padded_region example_image (0, 0, 612, 792)) False
     = Inr [[\<lparr>line_text = [0x20, 0x78], confidence = 3 / 4\<rparr>,
             \<lparr>line_text = [0x79], confidence = 1 / 4\<rparr>]]
   \<and> join_space (map line_text (filter (\<lambda>line. 1 / 2 < confidence line)
         [\<lparr>line_text = [0x20, 0x78], confidence = 3 / 4\<rparr>,
          \<lparr>line_text = [0x79], confidence = 1 / 4\<rparr>])) = [0x20, 0x78]
   \<and> snd (extract_text_from_region with_surya (ocr_enhancer (enhancer True False))
            example_image (0, 0, 612, 792) [0x78, 0x32] False) = [0x78]"
  by (simp add: with_surya_fields with_surya_extract)

theorem extract_text_confident_lines_witness:
  "models_loaded (ensure_loaded with_surya (ocr_enhancer (enhancer True False)))
   \<and> snd (extract_text_from_region with_surya (ocr_enhancer (enhancer True False))
            example_image (0, 0, 612, 792) [0x78, 0x32] False) = [0x78]
   \<and> snd (extract_text_from_region
            (with_surya\<lparr>recognition_predictor :=
               (\<lambda>img box math_mode. Inr [[\<lparr>line_text = [0x79], confidence = 1 / 4\<rparr>]])\<rparr>)
            (ocr_enhancer (enhancer True False)) example_image (0, 0, 612, 792) [0x78, 0x32]
            False) = [0x78, 0x32]"
proof -
  let ?quiet = "with_surya\<lparr>recognition_predictor :=
               (\<lambda>img box math_mode. Inr [[\<lparr>line_text = [0x79], confidence = 1 / 4\<rparr>]])\<rparr>"
  have l: "models_loaded (ensure_loaded with_surya (ocr_enhancer (enhancer True False)))"
    by (simp add: with_surya_loads)
  have l2: "models_loaded (ensure_loaded ?quiet (ocr_enhancer (enhancer True False)))"
    by (simp add: ensure_loaded_def load_models_def with_surya_def without_surya_def enhancer_def)
  have a: "snd (extract_text_from_region with_surya (ocr_enhancer (enhancer True False))
            example_image (0, 0, 612, 792) [0x78, 0x32] False) = [0x78]"
    using extract_text_confident_lines[OF l,
            where page_image = example_image and bbox = "(0, 0, 612, 792)" and math_mode = False
              and old_text = "[0x78, 0x32]", OF with_surya_fields(4)]
    by (simp add: with_surya_fields strip_space_x)
  have b: "snd (extract_text_from_region ?quiet (ocr_enhancer (enhancer True False))
            example_image (0, 0, 612, 792) [0x78, 0x32] False) = [0x78, 0x32]"
    using extract_text_confident_lines[OF l2,
            where page_image = example_image and bbox = "(0, 0, 612, 792)" and math_mode = False
              and old_text = "[0x78, 0x32]"
              and predictions = "[[\<lparr>line_text = [0x79], confidence = 1 / 4\<rparr>]]"]
    by (simp add: py_strip_def)
  show ?thesis using l a b by simp
qed

section \<open>Text elements\<close>


lemma example_text_box:
  "get_pixel_bbox (text_as_item \<lparr>text_prov = example_prov, text_text = [0x78, 0x32]\<rparr>)
     (Fin 612) (Fin 792) 612 792 = Inr (0, 0, 612, 792)"
  using page_item_box by (simp add: text_as_item_def)

lemma example_occlusion:
  "collect_non_text_bboxes 1 (Fin 612) (Fin 792) 612 792 text_document = Inr []"
  "collect_non_text_bboxes 1 (Fin 612) (Fin 792) 612 792 picture_document
     = Inr [(0, 0, 612, 792)]"
  using page_item_box example_on_page
  by (simp_all add: collect_non_text_bboxes_def non_text_items_def text_document_def
        picture_document_def bind_r_def)


lemma with_surya_quality:
  "should_enhance_text with_surya (enhancer True False) [0x78, 0x32]
     = \<lparr>encoding = False, formula = True\<rparr>"
  by (simp add: should_enhance_text_def with_surya_fields x2_quality enhancer_def)

lemma example_tables:
  "process_tables with_surya 1 example_image (Fin 612) (Fin 792) 612 792 (enhancer True False)
     text_document = (None, enhancer True False, text_document)"
  by (simp add: process_tables_def text_document_def)


lemma enabled_run_rewrites_text:
  "process_conversion_result with_surya (enhancer True False) (Some text_document)
     = (None,
        (enhancer True False)\<lparr>ocr_enhancer := \<lparr>models_loaded = True, models_loading = False\<rparr>\<rparr>,
        Some (text_document\<lparr>texts := [\<lparr>text_prov = example_prov, text_text = [0x78]\<rparr>]\<rparr>))"
proof -
  let ?txt = "\<lparr>text_prov = example_prov, text_text = [0x78, 0x32]\<rparr>"
  let ?de = "enhancer True False"
  let ?de1 = "?de\<lparr>ocr_enhancer := \<lparr>models_loaded = True, models_loading = False\<rparr>\<rparr>"
  have e: "process_text_element with_surya 1 example_image (Fin 612) (Fin 792) 612 792 [] ?de
             ?txt
             = (None, ?de1, \<lparr>text_prov = example_prov, text_text = [0x78]\<rparr>)"
    using example_on_page example_text_box
    by (simp add: process_text_element_def with_surya_quality triggers_def with_surya_extract)
  have t: "process_text_elements with_surya 1 example_image (Fin 612) (Fin 792) 612 792 [] ?de
             text_document
             = (None, ?de1,
                text_document\<lparr>texts := [\<lparr>text_prov = example_prov, text_text = [0x78]\<rparr>]\<rparr>)"
    by (simp add: process_text_elements_def text_document_def e)
  have pe: "process_page_elements with_surya example_page example_image 1 ?de text_document
              = (None, ?de1,
                 text_document\<lparr>texts := [\<lparr>text_prov = example_prov, text_text = [0x78]\<rparr>]\<rparr>)"
    by (simp add: process_page_elements_def example_sizes example_occlusion example_tables t)
  have pp: "process_pages with_surya ?de text_document [(1, example_page)]
              = (None, ?de1,
                 text_document\<lparr>texts := [\<lparr>text_prov = example_prov, text_text = [0x78]\<rparr>]\<rparr>)"
    by (simp add: example_page_image with_surya_fields pe)
  have "pages text_document = [(1, example_page)]" by (simp add: text_document_def)
  then show ?thesis using pp by (simp add: process_conversion_result_def enhancer_def)
qed

end
